theory Spec2Isabelle
  imports Main "HOL-Library.Word"
begin

section \<open>JavaScript values\<close>

text \<open>
  The secure channel client (\<^verbatim>\<open>secureChannel.js\<close>) and the client key store
  (\<^verbatim>\<open>clientKeyStore.js\<close>) are embedded as state-passing functions. A \<^verbatim>\<open>Uint8Array\<close>
  is a list of bytes; a value that crosses the native-messaging boundary or lives in
  \<^verbatim>\<open>chrome.storage.local\<close> is a \<open>jsval\<close>. A thrown \<^verbatim>\<open>Error\<close> is its \<^verbatim>\<open>message\<close>
  string, returned on the left of a sum.
\<close>

type_synonym byte = "8 word"
type_synonym bytes = "byte list"

datatype jsval =
    JUndefined
  | JNull
  | JBool bool
  | JNum nat
  | JStr string
  | JObj "(string \<times> jsval) list"

text \<open>Truthiness, as \<^verbatim>\<open>!v\<close>, \<^verbatim>\<open>v || d\<close> and \<^verbatim>\<open>if (v)\<close> read it.\<close>

fun truthy :: "jsval \<Rightarrow> bool" where
  "truthy JUndefined = False"
| "truthy JNull = False"
| "truthy (JBool b) = b"
| "truthy (JNum n) = (n \<noteq> 0)"
| "truthy (JStr s) = (s \<noteq> [])"
| "truthy (JObj kvs) = True"

fun digit_char :: "nat \<Rightarrow> char" where
  "digit_char n = char_of (48 + n)"

fun show_nat :: "nat \<Rightarrow> string" where
  "show_nat n = (if n < 10 then [digit_char n] else show_nat (n div 10) @ [digit_char (n mod 10)])"

declare show_nat.simps [simp del]

text \<open>
  \<^verbatim>\<open>String(v)\<close>. A number is a natural number below \<open>10\<^sup>2\<^sup>1\<close>, which JavaScript
  prints in plain digits.
\<close>

fun to_string :: "jsval \<Rightarrow> string" where
  "to_string JUndefined = ''undefined''"
| "to_string JNull = ''null''"
| "to_string (JBool b) = (if b then ''true'' else ''false'')"
| "to_string (JNum n) = show_nat n"
| "to_string (JStr s) = s"
| "to_string (JObj kvs) = ''[object Object]''"

text \<open>The \<^verbatim>\<open>message\<close> of \<^verbatim>\<open>new Error(v)\<close>: empty when \<open>v\<close> is undefined.\<close>

definition error_message :: "jsval \<Rightarrow> string" where
  "error_message v = (if v = JUndefined then [] else to_string v)"

text \<open>
  The message of the TypeError that a property read on undefined or null throws, in
  the wording of V8.
\<close>

definition cannot_read :: "string \<Rightarrow> string \<Rightarrow> string" where
  "cannot_read what k =
     ''Cannot read properties of '' @ what @ '' (reading '' @ [CHR 0x27] @ k @ [CHR 0x27] @ '')''"

text \<open>Property read \<^verbatim>\<open>v.k\<close>: a TypeError on undefined and null.\<close>

fun get_prop :: "jsval \<Rightarrow> string \<Rightarrow> string + jsval" where
  "get_prop JUndefined k = Inl (cannot_read ''undefined'' k)"
| "get_prop JNull k = Inl (cannot_read ''null'' k)"
| "get_prop (JObj kvs) k = Inr (case map_of kvs k of None \<Rightarrow> JUndefined | Some v \<Rightarrow> v)"
| "get_prop v k = Inr JUndefined"

text \<open>Optional chaining \<^verbatim>\<open>v?.k\<close>.\<close>

fun opt_prop :: "jsval \<Rightarrow> string \<Rightarrow> jsval" where
  "opt_prop (JObj kvs) k = (case map_of kvs k of None \<Rightarrow> JUndefined | Some v \<Rightarrow> v)"
| "opt_prop v k = JUndefined"

text \<open>\<^verbatim>\<open>s.includes(pat)\<close> on strings.\<close>

fun str_includes :: "string \<Rightarrow> string \<Rightarrow> bool" where
  "str_includes [] pat = (pat = [])"
| "str_includes (c # cs) pat = (take (length pat) (c # cs) = pat \<or> str_includes cs pat)"

section \<open>Constants and external collaborators\<close>

text \<open>
  The constants modules (\<^verbatim>\<open>shared/constants/nativeMessaging\<close>, \<^verbatim>\<open>shared/constants/auth\<close>)
  are imported by the sources but their values are not part of them, so the error
  patterns and the protocol tag are parameters.
\<close>

record constants =
  NOT_PAIRED :: string
  NO_SESSION :: string
  SESSION_NOT_FOUND :: string
  DECRYPT_FAILED :: string
  HANDSHAKE_FAILED :: string
  HANDSHAKE_FINISH_FAILED :: string
  SECURE_REQUEST_FAILED :: string
  SIGNATURE_INVALID :: string
  IDENTITY_KEYS_UNAVAILABLE :: string
  CLIENT_SIGNATURE_INVALID :: string
  MASTER_PASSWORD_REQUIRED :: string
  MASTER_PASSWORD_INVALID :: string
  CLIENT_FINISH :: string

text \<open>
  What the client observes of its surroundings while it runs: requests sent to the
  desktop, pairing-required notifications, and the entry of the calls that the
  properties count (\<^verbatim>\<open>ensureSession\<close>, one \<^verbatim>\<open>attempt\<close> of a secure request, the
  signature verification of a handshake, \<^verbatim>\<open>this._session = undefined\<close> before a
  retry, and the assignment of a new session to \<^verbatim>\<open>this._session\<close> by a handshake).
\<close>

datatype event =
    SendRequest string jsval
  | PairingRequired string
  | CallEnsureSession
  | CallAttempt
  | CallVerify
  | DropSession
  | StoreSession

text \<open>
  The cryptographic primitives, the platform functions and the desktop are external.
  A primitive that can throw returns a sum or an option. The desktop (\<open>host\<close>) answers
  a request from everything that happened so far: \<open>Inl\<close> is the message of the rejection
  (\<^verbatim>\<open>nativeMessaging.sendRequest\<close> rejects with an \<^verbatim>\<open>Error\<close>), \<open>Inr\<close> the result.
  \<^verbatim>\<open>chrome.storage.local\<close> is external too, and what its \<^verbatim>\<open>set\<close> does with a property
  whose value is undefined is a parameter: \<open>storage_skips_undefined\<close> says that such a
  property is left out (the stored value stays), as a store that serialises its
  argument does; otherwise it is assigned like any other, as the test double of the
  repository does.
\<close>

record env =
  random_bytes :: "nat \<Rightarrow> nat \<Rightarrow> bytes"
  x25519_getPublicKey :: "bytes \<Rightarrow> bytes"
  x25519_getSharedSecret :: "bytes \<Rightarrow> bytes \<Rightarrow> string + bytes"
  ed25519_verify :: "bytes \<Rightarrow> bytes \<Rightarrow> bytes \<Rightarrow> bool option"
  ed25519_sign :: "bytes \<Rightarrow> bytes \<Rightarrow> string + bytes"
  sha256 :: "bytes \<Rightarrow> bytes"
  xsalsa_encrypt :: "bytes \<Rightarrow> bytes \<Rightarrow> bytes \<Rightarrow> bytes"
  xsalsa_decrypt :: "bytes \<Rightarrow> bytes \<Rightarrow> bytes \<Rightarrow> bytes option"
  atob :: "string \<Rightarrow> bytes option"
  btoa :: "bytes \<Rightarrow> string"
  json_stringify :: "jsval \<Rightarrow> string"
  json_parse_bytes :: "bytes \<Rightarrow> string + jsval"
  text_encode :: "string \<Rightarrow> bytes"
  ed25519_getPublicKey :: "bytes \<Rightarrow> bytes"
  aes_gcm_encrypt :: "string \<Rightarrow> bytes \<Rightarrow> bytes \<Rightarrow> bytes \<Rightarrow> string + bytes"
  aes_gcm_decrypt :: "string \<Rightarrow> bytes \<Rightarrow> bytes \<Rightarrow> bytes \<Rightarrow> bytes option"
  host :: "event list \<Rightarrow> string \<Rightarrow> jsval \<Rightarrow> string + jsval"
  storage_skips_undefined :: bool

section \<open>State\<close>

record keypair =
  publicKey :: bytes
  privateKey :: bytes

text \<open>
  The ephemeral key pair is zeroed in place (\<^verbatim>\<open>fill(0)\<close>), so its two arrays live in a
  store and the pair holds their addresses.
\<close>

record ephemeral =
  eph_privateKey :: nat
  eph_publicKey :: nat

record session_rec =
  sid :: jsval
  skey :: bytes
  seq :: nat
  hostEphemeralPubB64 :: jsval

record key_record =
  publicKeyB64 :: string
  saltB64 :: string
  nonceB64 :: string
  ciphertextB64 :: string

record world =
  storage :: "string \<rightharpoonup> jsval"
  session :: "session_rec option"
  ephemeralKeyPair :: "ephemeral option"
  inMemoryKeypair :: "keypair option"
  pendingKeypair :: "keypair option"
  unlocking :: bool
  db_record :: "key_record option"
  heap :: "nat \<Rightarrow> bytes"
  next_addr :: nat
  draws :: nat
  trace :: "event list"

definition log_event :: "event \<Rightarrow> world \<Rightarrow> world" where
  "log_event e w = w\<lparr>trace := trace w @ [e]\<rparr>"

section \<open>Pinned identity in local storage\<close>

definition STORAGE_paired :: string where "STORAGE_paired = ''nm.paired''"
definition STORAGE_fingerprint :: string where "STORAGE_fingerprint = ''nm.fingerprint''"
definition STORAGE_ed25519PublicKey :: string where
  "STORAGE_ed25519PublicKey = ''nm.ed25519PublicKey''"
definition STORAGE_x25519PublicKey :: string where
  "STORAGE_x25519PublicKey = ''nm.x25519PublicKey''"

text \<open>
  \<^verbatim>\<open>chrome.storage.local\<close> as a key-value store: \<^verbatim>\<open>get\<close> answers every asked key with
  the stored value or undefined; \<^verbatim>\<open>set\<close> assigns the properties of the object, and
  leaves out or assigns an undefined one as the environment says.
\<close>

definition storageGet :: "string list \<Rightarrow> world \<Rightarrow> (string \<times> jsval) list" where
  "storageGet keys w =
     map (\<lambda>k. (k, case storage w k of None \<Rightarrow> JUndefined | Some v \<Rightarrow> v)) keys"

definition storageSet :: "env \<Rightarrow> (string \<times> jsval) list \<Rightarrow> world \<Rightarrow> world" where
  "storageSet E obj w =
     w\<lparr>storage :=
         fold (\<lambda>(k, v) m. if v = JUndefined \<and> storage_skips_undefined E then m else m(k \<mapsto> v))
           obj (storage w)\<rparr>"

record pinned =
  fingerprint :: jsval
  ed25519PublicKey :: jsval
  x25519PublicKey :: jsval

definition res_at :: "(string \<times> jsval) list \<Rightarrow> string \<Rightarrow> jsval" where
  "res_at res k = (case map_of res k of None \<Rightarrow> JUndefined | Some v \<Rightarrow> v)"

definition getPinnedIdentity :: "world \<Rightarrow> pinned option" where
  "getPinnedIdentity w =
     (let res = storageGet [STORAGE_fingerprint, STORAGE_ed25519PublicKey,
                            STORAGE_x25519PublicKey, STORAGE_paired] w;
          fp = res_at res STORAGE_fingerprint;
          ed = res_at res STORAGE_ed25519PublicKey;
          x = res_at res STORAGE_x25519PublicKey
      in if \<not> truthy fp \<or> \<not> truthy ed \<or> \<not> truthy x then None
         else Some \<lparr>fingerprint = fp, ed25519PublicKey = ed, x25519PublicKey = x\<rparr>)"

definition isPaired :: "world \<Rightarrow> bool" where
  "isPaired w = (getPinnedIdentity w \<noteq> None)"

definition pinIdentity :: "env \<Rightarrow> jsval \<Rightarrow> world \<Rightarrow> string + world" where
  "pinIdentity E ident w =
     (case get_prop ident ''fingerprint'' of Inl e \<Rightarrow> Inl e | Inr fp \<Rightarrow>
      case get_prop ident ''ed25519PublicKey'' of Inl e \<Rightarrow> Inl e | Inr ed \<Rightarrow>
      case get_prop ident ''x25519PublicKey'' of Inl e \<Rightarrow> Inl e | Inr x \<Rightarrow>
        Inr (storageSet E [(STORAGE_fingerprint, fp), (STORAGE_ed25519PublicKey, ed),
                         (STORAGE_x25519PublicKey, x), (STORAGE_paired, JBool True)] w))"

definition unpair :: "env \<Rightarrow> world \<Rightarrow> world" where
  "unpair E w =
     storageSet E [(STORAGE_fingerprint, JUndefined), (STORAGE_ed25519PublicKey, JUndefined),
                 (STORAGE_x25519PublicKey, JUndefined), (STORAGE_paired, JBool False)] w"


section \<open>Byte helpers\<close>

text \<open>
  \<^verbatim>\<open>base64Encode\<close> feeds \<^verbatim>\<open>btoa\<close> the binary string of all the bytes (built in chunks);
  \<^verbatim>\<open>base64Decode\<close> turns the failure of \<^verbatim>\<open>atob\<close> into the error \<^verbatim>\<open>InvalidBase64\<close>.
  \<^verbatim>\<open>atob\<close> converts its argument to a string first.
\<close>

definition base64Encode :: "env \<Rightarrow> bytes \<Rightarrow> string" where
  "base64Encode E uint8Array = btoa E uint8Array"

definition base64Decode :: "env \<Rightarrow> jsval \<Rightarrow> string + bytes" where
  "base64Decode E base64String =
     (case atob E (to_string base64String) of
        None \<Rightarrow> Inl ''InvalidBase64''
      | Some binary \<Rightarrow> Inr binary)"

text \<open>
  \<^verbatim>\<open>result.set(arr, offset)\<close> on a typed array: a RangeError when the source does not
  fit, otherwise the bytes are overwritten in place.
\<close>

definition typed_set :: "bytes \<Rightarrow> bytes \<Rightarrow> nat \<Rightarrow> string + bytes" where
  "typed_set result arr offset =
     (if length result < offset + length arr then Inl ''RangeError: offset is out of bounds''
      else Inr (take offset result @ arr @ drop (offset + length arr) result))"

fun concat_loop :: "bytes list \<Rightarrow> bytes \<Rightarrow> nat \<Rightarrow> string + bytes" where
  "concat_loop [] result offset = Inr result"
| "concat_loop (arr # arrays) result offset =
     (case typed_set result arr offset of
        Inl e \<Rightarrow> Inl e
      | Inr result' \<Rightarrow> concat_loop arrays result' (offset + length arr))"

definition concatUint8Arrays :: "bytes list \<Rightarrow> string + bytes" where
  "concatUint8Arrays arrays =
     (let totalLength = fold (\<lambda>arr acc. acc + length arr) arrays 0;
          result = replicate totalLength 0
      in concat_loop arrays result 0)"

section \<open>Client key store\<close>

text \<open>
  The module-level variables \<^verbatim>\<open>inMemoryKeypair\<close>, \<^verbatim>\<open>pendingKeypair\<close> and \<^verbatim>\<open>unlocking\<close>
  and the single IndexedDB record are fields of the state. The database is a store
  that does not fail; of the record, the fixed \<^verbatim>\<open>id\<close> and the creation time are left
  out. PBKDF2 key derivation followed by AES-GCM is one primitive of the environment,
  given the password, the salt and the nonce. \<^verbatim>\<open>unlocking\<close> is true while a call is
  suspended inside \<^verbatim>\<open>unlockKeypair\<close>; a call that runs to its end resets it.
\<close>

definition encryptPrivateKey ::
  "env \<Rightarrow> bytes \<Rightarrow> string \<Rightarrow> world \<Rightarrow> (string + bytes \<times> bytes \<times> bytes) \<times> world" where
  "encryptPrivateKey E privateKeyBytes password w =
     (let salt = random_bytes E (draws w) 16;
          nonce = random_bytes E (draws w + 1) 12;
          w' = w\<lparr>draws := draws w + 2\<rparr>
      in case aes_gcm_encrypt E password salt nonce privateKeyBytes of
           Inl e \<Rightarrow> (Inl e, w')
         | Inr ciphertext \<Rightarrow> (Inr (salt, nonce, ciphertext), w'))"

definition decryptPrivateKey :: "env \<Rightarrow> key_record \<Rightarrow> string \<Rightarrow> string + bytes" where
  "decryptPrivateKey E record password =
     (case base64Decode E (JStr (saltB64 record)) of Inl e \<Rightarrow> Inl e | Inr salt \<Rightarrow>
      case base64Decode E (JStr (nonceB64 record)) of Inl e \<Rightarrow> Inl e | Inr nonce \<Rightarrow>
      case base64Decode E (JStr (ciphertextB64 record)) of Inl e \<Rightarrow> Inl e | Inr ciphertext \<Rightarrow>
      case aes_gcm_decrypt E password salt nonce ciphertext of
        None \<Rightarrow> Inl ''OperationError''
      | Some plaintext \<Rightarrow> Inr plaintext)"

definition unlockKeypair ::
  "env \<Rightarrow> constants \<Rightarrow> string \<Rightarrow> world \<Rightarrow> (string + keypair) \<times> world" where
  "unlockKeypair E C masterPassword w =
     (case db_record w of
        None \<Rightarrow>
          (let (kp, w1) =
                 (case pendingKeypair w of
                    Some pending \<Rightarrow> (pending, w)
                  | None \<Rightarrow>
                      (let priv = random_bytes E (draws w) 32
                       in (\<lparr>publicKey = ed25519_getPublicKey E priv, privateKey = priv\<rparr>,
                           w\<lparr>draws := draws w + 1\<rparr>)))
           in case encryptPrivateKey E (privateKey kp) masterPassword w1 of
                (Inl e, w2) \<Rightarrow> (Inl e, w2)
              | (Inr (salt, nonce, ciphertext), w2) \<Rightarrow>
                  (Inr kp,
                   w2\<lparr>db_record := Some \<lparr>publicKeyB64 = base64Encode E (publicKey kp),
                                          saltB64 = base64Encode E salt,
                                          nonceB64 = base64Encode E nonce,
                                          ciphertextB64 = base64Encode E ciphertext\<rparr>,
                      pendingKeypair := None,
                      inMemoryKeypair := Some kp\<rparr>))
      | Some record \<Rightarrow>
          (case decryptPrivateKey E record masterPassword of
             Inl e \<Rightarrow> (Inl (MASTER_PASSWORD_INVALID C), w)
           | Inr priv \<Rightarrow>
               (case base64Decode E (JStr (publicKeyB64 record)) of
                  Inl e \<Rightarrow> (Inl (MASTER_PASSWORD_INVALID C), w)
                | Inr pub \<Rightarrow>
                    (let kp = \<lparr>publicKey = pub, privateKey = priv\<rparr>
                     in (Inr kp, w\<lparr>inMemoryKeypair := Some kp\<rparr>)))))"

text \<open>
  \<^verbatim>\<open>ensureClientKeypairUnlocked(masterPassword)\<close>: the password is optional
  (\<open>None\<close> is an omitted argument), and \<^verbatim>\<open>!masterPassword\<close> holds for an omitted and
  for an empty one. The \<^verbatim>\<open>finally\<close> resets \<^verbatim>\<open>unlocking\<close> on every way out.
\<close>

definition ensureClientKeypairUnlocked ::
  "env \<Rightarrow> constants \<Rightarrow> string option \<Rightarrow> world \<Rightarrow> (string + keypair) \<times> world" where
  "ensureClientKeypairUnlocked E C masterPassword w =
     (case inMemoryKeypair w of
        Some kp \<Rightarrow> (Inr kp, w)
      | None \<Rightarrow>
          if unlocking w then (Inl ''UnlockInProgress'', w)
          else (case masterPassword of
                  None \<Rightarrow> (Inl (MASTER_PASSWORD_REQUIRED C), w)
                | Some pw \<Rightarrow>
                    if pw = [] then (Inl (MASTER_PASSWORD_REQUIRED C), w)
                    else (let (r, w1) = unlockKeypair E C pw (w\<lparr>unlocking := True\<rparr>)
                          in (r, w1\<lparr>unlocking := False\<rparr>))))"

text \<open>
  Modelled from the spec: \<^verbatim>\<open>clearClientKeypair\<close> is imported from the key store by
  the channel, but its definition is not among the sources. The spec's \<^verbatim>\<open>clear()\<close>
  "deletes the persisted record and the in-memory cache".
\<close>

definition clearClientKeypair :: "world \<Rightarrow> world" where
  "clearClientKeypair w = w\<lparr>db_record := None, inMemoryKeypair := None\<rparr>"

section \<open>Secure channel client\<close>

definition generateX25519KeyPair :: "env \<Rightarrow> world \<Rightarrow> ephemeral \<times> world" where
  "generateX25519KeyPair E w =
     (let priv = random_bytes E (draws w) 32;
          pub = x25519_getPublicKey E priv;
          a = next_addr w
      in (\<lparr>eph_privateKey = a, eph_publicKey = a + 1\<rparr>,
          w\<lparr>heap := (heap w)(a := priv, a + 1 := pub),
            next_addr := a + 2,
            draws := draws w + 1\<rparr>))"

definition generateNonce :: "env \<Rightarrow> world \<Rightarrow> bytes \<times> world" where
  "generateNonce E w = (random_bytes E (draws w) 24, w\<lparr>draws := draws w + 1\<rparr>)"

definition verifyEd25519Signature :: "env \<Rightarrow> bytes \<Rightarrow> bytes \<Rightarrow> bytes \<Rightarrow> bool" where
  "verifyEd25519Signature E message signature pub =
     (case ed25519_verify E signature message pub of
        Some b \<Rightarrow> b
      | None \<Rightarrow> False)"

text \<open>
  The cipher is built from the 32-byte session key and a 24-byte nonce, on which
  \<^verbatim>\<open>encrypt\<close> does not throw; \<^verbatim>\<open>decrypt\<close> throws when authentication fails, and
  \<^verbatim>\<open>secretboxOpen\<close> turns that into \<^verbatim>\<open>null\<close>.
\<close>

definition secretbox :: "env \<Rightarrow> bytes \<Rightarrow> bytes \<Rightarrow> bytes \<Rightarrow> bytes" where
  "secretbox E plaintext nonce key = xsalsa_encrypt E key nonce plaintext"

definition secretboxOpen :: "env \<Rightarrow> bytes \<Rightarrow> bytes \<Rightarrow> bytes \<Rightarrow> bytes option" where
  "secretboxOpen E ciphertext nonce key = xsalsa_decrypt E key nonce ciphertext"

text \<open>
  \<^verbatim>\<open>nativeMessaging.sendRequest(command, params, timeout)\<close>: the request is recorded
  and the desktop answers or rejects (a timeout is one of its rejections).
\<close>

definition sendRequest ::
  "env \<Rightarrow> string \<Rightarrow> jsval \<Rightarrow> world \<Rightarrow> (string + jsval) \<times> world" where
  "sendRequest E command params w =
     (host E (trace w) command params, log_event (SendRequest command params) w)"

definition getOrCreateClientIdentity ::
  "env \<Rightarrow> constants \<Rightarrow> world \<Rightarrow> (string + keypair) \<times> world" where
  "getOrCreateClientIdentity E C w = ensureClientKeypairUnlocked E C None w"

definition hasActiveSession :: "world \<Rightarrow> bool" where
  "hasActiveSession w = (case session w of None \<Rightarrow> False | Some s \<Rightarrow> truthy (sid s))"

text \<open>
  \<^verbatim>\<open>clearSession(reason)\<close>: the notification is sent with \<^verbatim>\<open>chrome.runtime.sendMessage\<close>
  and its failure is swallowed.
\<close>

definition clearSession :: "env \<Rightarrow> string \<Rightarrow> world \<Rightarrow> world" where
  "clearSession E reason w =
     (let w1 = w\<lparr>session := None, ephemeralKeyPair := None\<rparr>;
          w2 = unpair E w1;
          w3 = clearClientKeypair w2
      in log_event (PairingRequired reason) w3)"

text \<open>
  The result object of \<^verbatim>\<open>beginHandshake\<close>: \<^verbatim>\<open>{ ok: false, error }\<close> or
  \<^verbatim>\<open>{ ok: true, sessionId }\<close>.
\<close>

datatype hs_result = HsFail string | HsOk jsval

text \<open>
  The body of the \<^verbatim>\<open>try\<close> of \<^verbatim>\<open>beginHandshake\<close>: \<open>Inl\<close> is a thrown error, \<open>Inr\<close> a
  returned result.
\<close>

definition beginHandshake_try ::
  "env \<Rightarrow> constants \<Rightarrow> world \<Rightarrow> (string + hs_result) \<times> world" where
  "beginHandshake_try E C w =
     (let (extensionEphemeralKeyPair, w1) = generateX25519KeyPair E w;
          extensionEphemeralPublicKeyB64 =
            base64Encode E (heap w1 (eph_publicKey extensionEphemeralKeyPair));
          w2 = w1\<lparr>ephemeralKeyPair := Some extensionEphemeralKeyPair\<rparr>;
          (r, w3) = sendRequest E ''nmBeginHandshake''
                      (JObj [(''extEphemeralPubB64'', JStr extensionEphemeralPublicKeyB64)]) w2
      in case r of
           Inl e \<Rightarrow> (Inl e, w3)
         | Inr handshakeResponse \<Rightarrow>
      (case getPinnedIdentity w3 of
         None \<Rightarrow> (Inr (HsFail (NOT_PAIRED C)), clearSession E (NOT_PAIRED C) w3)
       | Some pinnedIdentity \<Rightarrow>
      (case get_prop handshakeResponse ''hostEphemeralPubB64'' of
         Inl e \<Rightarrow> (Inl e, w3)
       | Inr hostB64 \<Rightarrow>
      (case base64Decode E hostB64 of
         Inl e \<Rightarrow> (Inl e, w3)
       | Inr hostEphemeralPublicKeyBytes \<Rightarrow>
      (case getOrCreateClientIdentity E C w3 of
         (Inl e, w4) \<Rightarrow> (Inl e, w4)
       | (Inr clientIdentity, w4) \<Rightarrow>
      (case concatUint8Arrays [hostEphemeralPublicKeyBytes,
                               heap w4 (eph_publicKey extensionEphemeralKeyPair),
                               publicKey clientIdentity] of
         Inl e \<Rightarrow> (Inl e, w4)
       | Inr transcript \<Rightarrow>
      (case base64Decode E (ed25519PublicKey pinnedIdentity) of
         Inl e \<Rightarrow> (Inl e, w4)
       | Inr desktopEd25519PublicKey \<Rightarrow>
      (case get_prop handshakeResponse ''signatureB64'' of
         Inl e \<Rightarrow> (Inl e, w4)
       | Inr signatureB64 \<Rightarrow>
      (case base64Decode E signatureB64 of
         Inl e \<Rightarrow> (Inl e, w4)
       | Inr handshakeSignature \<Rightarrow>
      (let w5 = log_event CallVerify w4;
           signatureValid =
             verifyEd25519Signature E transcript handshakeSignature desktopEd25519PublicKey
       in if \<not> signatureValid then (Inr (HsFail (SIGNATURE_INVALID C)), w5)
          else
      (case x25519_getSharedSecret E (heap w5 (eph_privateKey extensionEphemeralKeyPair))
              hostEphemeralPublicKeyBytes of
         Inl e \<Rightarrow> (Inl e, w5)
       | Inr sharedSecret \<Rightarrow>
      (case concatUint8Arrays [sharedSecret, transcript] of
         Inl e \<Rightarrow> (Inl e, w5)
       | Inr preimage \<Rightarrow>
      (let digest = sha256 E preimage;
           sessionSymmetricKey = take 32 digest
       in case get_prop handshakeResponse ''sessionId'' of
            Inl e \<Rightarrow> (Inl e, w5)
          | Inr sessionId \<Rightarrow>
              (Inr (HsOk sessionId),
               (log_event StoreSession w5)
                 \<lparr>session := Some \<lparr>sid = sessionId, skey = sessionSymmetricKey, seq = 0,
                                     hostEphemeralPubB64 = hostB64\<rparr>\<rparr>))))))))))))))"

definition beginHandshake :: "env \<Rightarrow> constants \<Rightarrow> world \<Rightarrow> hs_result \<times> world" where
  "beginHandshake E C w =
     (case beginHandshake_try E C w of
        (Inr result, w') \<Rightarrow> (result, w')
      | (Inl message, w') \<Rightarrow>
          if str_includes message (IDENTITY_KEYS_UNAVAILABLE C)
          then (HsFail (IDENTITY_KEYS_UNAVAILABLE C), w')
          else (HsFail (if message \<noteq> [] then message else HANDSHAKE_FAILED C), w'))"

text \<open>
  \<^verbatim>\<open>finishHandshake\<close>: the body of the \<^verbatim>\<open>try\<close> (\<open>Inl\<close> is a thrown error, \<open>Inr\<close> the
  returned response of the desktop), the \<^verbatim>\<open>catch\<close> that turns an error into a failure
  object, and the \<^verbatim>\<open>finally\<close> that zeroes and drops the ephemeral key pair.

  The body suspends twice, at \<^verbatim>\<open>await getOrCreateClientIdentity()\<close> and at
  \<^verbatim>\<open>await nativeMessaging.sendRequest(...)\<close>, and other tasks of the same instance run
  meanwhile (\<^verbatim>\<open>getBlockingState\<close>, which is not behind the handshake lock, can call
  \<^verbatim>\<open>clearSession\<close>). \<open>other1\<close> and \<open>other2\<close> are what they do to the state at the
  first and at the second suspension; \<open>id\<close> is a suspension during which nothing else
  runs. After the first one the body reads \<^verbatim>\<open>this._session.id\<close> and
  \<^verbatim>\<open>this._ephemeralKeyPair.publicKey\<close> again, each a TypeError when the field has gone.
\<close>

definition finishHandshake_try ::
  "env \<Rightarrow> constants \<Rightarrow> (world \<Rightarrow> world) \<Rightarrow> (world \<Rightarrow> world) \<Rightarrow> world \<Rightarrow>
   (string + jsval) \<times> world" where
  "finishHandshake_try E C other1 other2 w =
     (case session w of
        None \<Rightarrow> (Inl (NO_SESSION C), w)
      | Some s \<Rightarrow>
      if \<not> truthy (sid s) then (Inl (NO_SESSION C), w)
      else if \<not> truthy (hostEphemeralPubB64 s) \<or> ephemeralKeyPair w = None
      then (Inl (HANDSHAKE_FAILED C), w)
      else
      (case base64Decode E (hostEphemeralPubB64 s) of
         Inl e \<Rightarrow> (Inl e, w)
       | Inr hostEphemeralPublicKeyBytes \<Rightarrow>
      if length hostEphemeralPublicKeyBytes \<noteq> 32 then (Inl (HANDSHAKE_FAILED C), w)
      else
      (case getOrCreateClientIdentity E C w of
         (Inl e, w0) \<Rightarrow> (Inl e, other1 w0)
       | (Inr clientIdentity, w0) \<Rightarrow>
      (let w1 = other1 w0
       in case session w1 of
            None \<Rightarrow> (Inl (cannot_read ''undefined'' ''id''), w1)
          | Some s1 \<Rightarrow>
      (case ephemeralKeyPair w1 of
         None \<Rightarrow> (Inl (cannot_read ''undefined'' ''publicKey''), w1)
       | Some eph \<Rightarrow>
      (let protocolTag = text_encode E (CLIENT_FINISH C);
           sessionIdBytes = text_encode E (to_string (sid s1))
       in case concatUint8Arrays [protocolTag, sessionIdBytes,
                                  hostEphemeralPublicKeyBytes,
                                  heap w1 (eph_publicKey eph),
                                  publicKey clientIdentity] of
            Inl e \<Rightarrow> (Inl e, w1)
          | Inr transcript \<Rightarrow>
              (case ed25519_sign E transcript (privateKey clientIdentity) of
                 Inl e \<Rightarrow> (Inl e, w1)
               | Inr clientSignature \<Rightarrow>
                   (case sendRequest E ''nmFinishHandshake''
                           (JObj [(''sessionId'', sid s1),
                                  (''clientSigB64'', JStr (base64Encode E clientSignature))])
                           w1 of
                      (r, w2) \<Rightarrow> (r, other2 w2)))))))))"

definition fill0 :: "bytes \<Rightarrow> bytes" where
  "fill0 arr = replicate (length arr) 0"

definition finishHandshake_finally :: "world \<Rightarrow> world" where
  "finishHandshake_finally w =
     (case ephemeralKeyPair w of
        None \<Rightarrow> w
      | Some eph \<Rightarrow>
          (let h1 = (heap w)(eph_privateKey eph := fill0 (heap w (eph_privateKey eph)));
               h2 = h1(eph_publicKey eph := fill0 (h1 (eph_publicKey eph)))
           in w\<lparr>heap := h2, ephemeralKeyPair := None\<rparr>))"

definition finishHandshake ::
  "env \<Rightarrow> constants \<Rightarrow> (world \<Rightarrow> world) \<Rightarrow> (world \<Rightarrow> world) \<Rightarrow> world \<Rightarrow> jsval \<times> world" where
  "finishHandshake E C other1 other2 w =
     (case finishHandshake_try E C other1 other2 w of
        (Inr res, w1) \<Rightarrow> (res, finishHandshake_finally w1)
      | (Inl message, w1) \<Rightarrow>
          (JObj [(''ok'', JBool False),
                 (''error'', JStr (if message \<noteq> [] then message else HANDSHAKE_FAILED C))],
           finishHandshake_finally w1))"

text \<open>
  \<^verbatim>\<open>_performHandshake\<close>. The key store returns a key pair whose private key is an
  array, so the check \<^verbatim>\<open>!privateKey\<close> never fires; an error of the key store is
  rethrown only when its message includes the master-password pattern.
  \<^verbatim>\<open>finish.error.includes\<close> is a TypeError when the error is truthy and not a string.
  The handshake that \<^verbatim>\<open>ensureSession\<close> runs is taken on its own here: nothing else
  runs while its \<^verbatim>\<open>finishHandshake\<close> is suspended.
\<close>

definition finish_failed ::
  "env \<Rightarrow> constants \<Rightarrow> jsval \<Rightarrow> world \<Rightarrow> (string + unit) \<times> world" where
  "finish_failed E C finish w =
     (let ferr = opt_prop finish ''error'';
          reason = (if truthy ferr then to_string ferr else HANDSHAKE_FINISH_FAILED C)
      in if truthy ferr then
           (case ferr of
              JStr e \<Rightarrow>
                if str_includes e (MASTER_PASSWORD_REQUIRED C) \<or>
                   str_includes e (CLIENT_SIGNATURE_INVALID C) \<or>
                   str_includes e (SIGNATURE_INVALID C)
                then (Inl e, w)
                else (Inl reason, clearSession E reason w)
            | _ \<Rightarrow> (Inl ''finish.error.includes is not a function'', w))
         else (Inl reason, clearSession E reason w))"

definition performHandshake :: "env \<Rightarrow> constants \<Rightarrow> world \<Rightarrow> (string + unit) \<times> world" where
  "performHandshake E C w =
     (if \<not> isPaired w then (Inl (NOT_PAIRED C), clearSession E (NOT_PAIRED C) w)
      else
        (let (kr, w1) = ensureClientKeypairUnlocked E C None w;
             rethrown = (case kr of
                           Inr kp \<Rightarrow> None
                         | Inl e \<Rightarrow>
                             if e \<noteq> [] \<and> str_includes e (MASTER_PASSWORD_REQUIRED C)
                             then Some e else None)
         in case rethrown of
              Some e \<Rightarrow> (Inl e, w1)
            | None \<Rightarrow>
                (case beginHandshake E C w1 of
                   (HsFail err, w2) \<Rightarrow>
                     if err = IDENTITY_KEYS_UNAVAILABLE C
                     then (Inl (IDENTITY_KEYS_UNAVAILABLE C @ '': Desktop requires pairing reset''),
                           clearSession E (IDENTITY_KEYS_UNAVAILABLE C) w2)
                     else (Inl (if err \<noteq> [] then err else HANDSHAKE_FAILED C), w2)
                 | (HsOk sessionId, w2) \<Rightarrow>
                     (case finishHandshake E C id id w2 of
                        (finish, w3) \<Rightarrow>
                          if \<not> truthy (opt_prop finish ''ok'') then finish_failed E C finish w3
                          else (Inr (), w3)))))"

text \<open>
  \<^verbatim>\<open>ensureSession\<close>, one call at a time: no handshake is in flight when it is entered,
  and the slot \<^verbatim>\<open>_handshakePromise\<close> is empty again when it returns.
\<close>

definition ensureSession :: "env \<Rightarrow> constants \<Rightarrow> world \<Rightarrow> (string + unit) \<times> world" where
  "ensureSession E C w =
     (let w0 = log_event CallEnsureSession w
      in if hasActiveSession w0 then (Inr (), w0) else performHandshake E C w0)"

text \<open>
  The sequence counter is a JavaScript number, an IEEE double, that starts at 0 and is
  incremented with \<^verbatim>\<open>++\<close>. Below \<open>2\<^sup>5\<^sup>3\<close> the increment adds one. From \<open>2\<^sup>5\<^sup>3\<close> on
  the doubles are two or more apart and the sum is rounded to the nearest one, to the
  one with the even significand on a tie: \<open>2\<^sup>5\<^sup>3\<close> stays \<open>2\<^sup>5\<^sup>3\<close>. The function is
  the increment on the natural numbers that a double holds; a counter that starts at
  0 never leaves them.
\<close>

definition js_increment :: "nat \<Rightarrow> nat" where
  "js_increment n =
     (if n < 9007199254740992 then n + 1
      else if n < 18014398509481984 then (if even (n div 2) then n else n + 2)
      else n)"

text \<open>One \<^verbatim>\<open>attempt\<close> of \<^verbatim>\<open>secureRequest\<close>.\<close>

definition attempt ::
  "env \<Rightarrow> constants \<Rightarrow> string \<Rightarrow> jsval \<Rightarrow> world \<Rightarrow> (string + jsval) \<times> world" where
  "attempt E C method params w =
     (let w0 = log_event CallAttempt w
      in case session w0 of
           None \<Rightarrow> (Inl (cannot_read ''undefined'' ''seq''), w0)
         | Some s \<Rightarrow>
      (let seq' = js_increment (seq s);
           w1 = w0\<lparr>session := Some (s\<lparr>seq := seq'\<rparr>)\<rparr>;
           plaintextString = json_stringify E (JObj [(''method'', JStr method), (''params'', params)]);
           plaintext = text_encode E plaintextString;
           (nonce, w2) = generateNonce E w1;
           ciphertext = secretbox E plaintext nonce (skey s);
           (r, w3) = sendRequest E ''nmSecureRequest''
                       (JObj [(''sessionId'', sid s),
                              (''nonceB64'', JStr (base64Encode E nonce)),
                              (''ciphertextB64'', JStr (base64Encode E ciphertext)),
                              (''seq'', JNum seq')]) w2
       in case r of
            Inl e \<Rightarrow> (Inl e, w3)
          | Inr res \<Rightarrow>
      (case get_prop res ''nonceB64'' of
         Inl e \<Rightarrow> (Inl e, w3)
       | Inr resNonceB64 \<Rightarrow>
      (case base64Decode E resNonceB64 of
         Inl e \<Rightarrow> (Inl e, w3)
       | Inr responseNonce \<Rightarrow>
      (case get_prop res ''ciphertextB64'' of
         Inl e \<Rightarrow> (Inl e, w3)
       | Inr resCiphertextB64 \<Rightarrow>
      (case base64Decode E resCiphertextB64 of
         Inl e \<Rightarrow> (Inl e, w3)
       | Inr responseCiphertext \<Rightarrow>
      (case secretboxOpen E responseCiphertext responseNonce (skey s) of
         None \<Rightarrow> (Inl (DECRYPT_FAILED C), w3)
       | Some responsePlaintext \<Rightarrow>
      (case json_parse_bytes E responsePlaintext of
         Inl e \<Rightarrow> (Inl e, w3)
       | Inr decoded \<Rightarrow>
      (case get_prop decoded ''ok'' of
         Inl e \<Rightarrow> (Inl e, w3)
       | Inr okv \<Rightarrow>
           if \<not> truthy okv then
             (let errv = opt_prop decoded ''error''
              in (Inl (if truthy errv then error_message errv else SECURE_REQUEST_FAILED C), w3))
           else (Inr (opt_prop decoded ''result''), w3))))))))))"

definition is_retryable :: "constants \<Rightarrow> string \<Rightarrow> bool" where
  "is_retryable C message =
     (message = DECRYPT_FAILED C \<or> message = SECURE_REQUEST_FAILED C \<or>
      message = NO_SESSION C \<or> message = SESSION_NOT_FOUND C \<or>
      str_includes message (SESSION_NOT_FOUND C))"

definition is_identity_level :: "constants \<Rightarrow> string \<Rightarrow> bool" where
  "is_identity_level C msg =
     (str_includes msg (IDENTITY_KEYS_UNAVAILABLE C) \<or>
      str_includes msg (NOT_PAIRED C) \<or>
      str_includes msg (SIGNATURE_INVALID C))"

text \<open>The inner \<^verbatim>\<open>catch (retryError)\<close> of \<^verbatim>\<open>secureRequest\<close>.\<close>

definition retry_failed ::
  "env \<Rightarrow> constants \<Rightarrow> string \<Rightarrow> string \<Rightarrow> world \<Rightarrow> (string + jsval) \<times> world" where
  "retry_failed E C e retryError w =
     (let msg = (if retryError \<noteq> [] then retryError else if e \<noteq> [] then e else [])
      in if is_identity_level C msg then (Inl retryError, clearSession E msg w)
         else (Inl retryError, w))"

definition secureRequest ::
  "env \<Rightarrow> constants \<Rightarrow> string \<Rightarrow> jsval \<Rightarrow> world \<Rightarrow> (string + jsval) \<times> world" where
  "secureRequest E C method params w =
     (case session w of
        None \<Rightarrow> (Inl (NO_SESSION C), w)
      | Some s \<Rightarrow>
          (case attempt E C method params w of
             (Inr result, w1) \<Rightarrow> (Inr result, w1)
           | (Inl e, w1) \<Rightarrow>
               if is_retryable C e then
                 (let w2 = log_event DropSession (w1\<lparr>session := None\<rparr>)
                  in case ensureSession E C w2 of
                       (Inl retryError, w3) \<Rightarrow> retry_failed E C e retryError w3
                     | (Inr u, w3) \<Rightarrow>
                         (case attempt E C method params w3 of
                            (Inr result, w4) \<Rightarrow> (Inr result, w4)
                          | (Inl retryError, w4) \<Rightarrow> retry_failed E C e retryError w4))
               else (Inl e, w1)))"

text \<open>Sequential calls of \<^verbatim>\<open>secureRequest\<close>, each awaited before the next.\<close>

fun secureRequests ::
  "env \<Rightarrow> constants \<Rightarrow> (string \<times> jsval) list \<Rightarrow> world \<Rightarrow> (string + jsval) list \<times> world" where
  "secureRequests E C [] w = ([], w)"
| "secureRequests E C ((method, params) # calls) w =
     (case secureRequest E C method params w of
        (r, w1) \<Rightarrow> (case secureRequests E C calls w1 of (rs, w2) \<Rightarrow> (r # rs, w2)))"

text \<open>The sequence numbers of the secure requests in a trace, in the order sent.\<close>

fun sent_seqs :: "event list \<Rightarrow> jsval list" where
  "sent_seqs [] = []"
| "sent_seqs (SendRequest command params # es) =
     (if command = ''nmSecureRequest'' then opt_prop params ''seq'' # sent_seqs es
      else sent_seqs es)"
| "sent_seqs (e # es) = sent_seqs es"

text \<open>
  Numbering within each session's lifetime. \<open>numbered n evs\<close> reads the events in
  order and keeps the counter of the current session, \<open>n\<close> at the start and 0 from each
  newly stored session on: every secure request must carry the counter plus one, which
  is the counter from then on. \<open>counter_after\<close> is the counter at the end.
\<close>

fun numbered :: "nat \<Rightarrow> event list \<Rightarrow> bool" where
  "numbered n [] = True"
| "numbered n (StoreSession # es) = numbered 0 es"
| "numbered n (SendRequest command params # es) =
     (if command = ''nmSecureRequest''
      then opt_prop params ''seq'' = JNum (n + 1) \<and> numbered (n + 1) es
      else numbered n es)"
| "numbered n (e # es) = numbered n es"

fun counter_after :: "nat \<Rightarrow> event list \<Rightarrow> nat" where
  "counter_after n [] = n"
| "counter_after n (StoreSession # es) = counter_after 0 es"
| "counter_after n (SendRequest command params # es) =
     (if command = ''nmSecureRequest'' then counter_after (n + 1) es else counter_after n es)"
| "counter_after n (e # es) = counter_after n es"

text \<open>
  The events of a trace, cut at each newly stored session: the first part belongs to
  the session held at the start, every later part to the session stored at its cut.
  A secure request is only sent on a session, so the requests of a part are those sent
  during that session's lifetime.
\<close>

fun lifetimes :: "event list \<Rightarrow> event list list" where
  "lifetimes [] = [[]]"
| "lifetimes (StoreSession # es) = [] # lifetimes es"
| "lifetimes (e # es) = (case lifetimes es of [] \<Rightarrow> [[e]] | l # ls \<Rightarrow> (e # l) # ls)"

text \<open>The counter of the session held, if one is held, is \<open>n\<close>.\<close>

definition tracks :: "nat \<Rightarrow> world \<Rightarrow> bool" where
  "tracks n w = (case session w of None \<Rightarrow> True | Some s \<Rightarrow> seq s = n)"

text \<open>
  A step that sends no secure request: it adds the events \<open>evs\<close>, and either stores a
  session, whose counter is 0, or leaves the session as it was or drops it.
\<close>

definition quiet_step :: "world \<Rightarrow> event list \<Rightarrow> world \<Rightarrow> bool" where
  "quiet_step w evs w' =
     (trace w' = trace w @ evs \<and> sent_seqs evs = [] \<and>
      (if StoreSession \<in> set evs then tracks 0 w'
       else session w' = session w \<or> session w' = None))"

text \<open>
  A step whose secure requests are numbered from the counter \<open>n\<close> on and that leaves the
  counter of the session held where the numbering ends.
\<close>

definition counted_step :: "nat \<Rightarrow> world \<Rightarrow> event list \<Rightarrow> world \<Rightarrow> bool" where
  "counted_step n w evs w' =
     (trace w' = trace w @ evs \<and> numbered n evs \<and> tracks (counter_after n evs) w')"

text \<open>The events a call added to the trace, and what the properties read off them.\<close>

definition new_events :: "world \<Rightarrow> world \<Rightarrow> event list" where
  "new_events w w' = drop (length (trace w)) (trace w')"

fun notifications :: "event list \<Rightarrow> string list" where
  "notifications [] = []"
| "notifications (PairingRequired reason # es) = reason # notifications es"
| "notifications (e # es) = notifications es"

definition count_event :: "event \<Rightarrow> event list \<Rightarrow> nat" where
  "count_event e es = length (filter (\<lambda>x. x = e) es)"

text \<open>The request of \<^verbatim>\<open>beginHandshake\<close>: the fresh ephemeral public key, encoded.\<close>

definition own_ephemeral_private :: "env \<Rightarrow> world \<Rightarrow> bytes" where
  "own_ephemeral_private E w = random_bytes E (draws w) 32"

definition own_ephemeral_public :: "env \<Rightarrow> world \<Rightarrow> bytes" where
  "own_ephemeral_public E w = x25519_getPublicKey E (random_bytes E (draws w) 32)"

text \<open>
  The session key in the spec's words: the hash of the shared secret followed by the
  transcript, truncated to the key length of the cipher (32 bytes), where the
  transcript is the peer's ephemeral public key, the own ephemeral public key and the
  client's long-term public key, in this order.
\<close>

definition handshake_transcript :: "bytes \<Rightarrow> bytes \<Rightarrow> bytes \<Rightarrow> bytes" where
  "handshake_transcript peerEphemeral ownEphemeral clientPublic =
     peerEphemeral @ ownEphemeral @ clientPublic"

definition session_key_spec :: "env \<Rightarrow> bytes \<Rightarrow> bytes \<Rightarrow> bytes" where
  "session_key_spec E sharedSecret transcript = take 32 (sha256 E (sharedSecret @ transcript))"

definition begin_params :: "env \<Rightarrow> world \<Rightarrow> jsval" where
  "begin_params E w =
     JObj [(''extEphemeralPubB64'', JStr (base64Encode E (own_ephemeral_public E w)))]"

section \<open>A concrete environment\<close>

text \<open>
  Sample values of the constants (named after their keys) and toy primitives, for
  running the model on concrete inputs. The store is the test double of the repository. The toy signature check accepts a signature
  that equals the public key; the toy cipher is the identity and rejects the
  ciphertext \<open>bad\<close>.
\<close>

definition C0 :: constants where
  "C0 = \<lparr>NOT_PAIRED = ''NotPaired'', NO_SESSION = ''NoSession'',
         SESSION_NOT_FOUND = ''SessionNotFound'', DECRYPT_FAILED = ''DecryptFailed'',
         HANDSHAKE_FAILED = ''HandshakeFailed'',
         HANDSHAKE_FINISH_FAILED = ''HandshakeFinishFailed'',
         SECURE_REQUEST_FAILED = ''SecureRequestFailed'',
         SIGNATURE_INVALID = ''SignatureInvalid'',
         IDENTITY_KEYS_UNAVAILABLE = ''IdentityKeysUnavailable'',
         CLIENT_SIGNATURE_INVALID = ''ClientSignatureInvalid'',
         MASTER_PASSWORD_REQUIRED = ''MasterPasswordRequired'',
         MASTER_PASSWORD_INVALID = ''MasterPasswordInvalid'',
         CLIENT_FINISH = ''client-finish''\<rparr>"

definition bytes_of :: "string \<Rightarrow> bytes" where
  "bytes_of s = map (\<lambda>c. of_nat (of_char c)) s"

definition string_of :: "bytes \<Rightarrow> string" where
  "string_of bs = map (\<lambda>b. char_of (unat b)) bs"

definition E0 :: "(event list \<Rightarrow> string \<Rightarrow> jsval \<Rightarrow> string + jsval) \<Rightarrow> env" where
  "E0 h = \<lparr>random_bytes = (\<lambda>n len. replicate len (of_nat (n + 17))),
           x25519_getPublicKey = (\<lambda>priv. map (\<lambda>b. b + 1) priv),
           x25519_getSharedSecret = (\<lambda>priv pub. Inr (priv @ pub)),
           ed25519_verify = (\<lambda>signature message pub. Some (signature = pub)),
           ed25519_sign = (\<lambda>message priv. Inr priv),
           sha256 = (\<lambda>preimage. rev preimage),
           xsalsa_encrypt = (\<lambda>key nonce plaintext. plaintext),
           xsalsa_decrypt = (\<lambda>key nonce ciphertext.
              if ciphertext = bytes_of ''bad'' then None else Some ciphertext),
           atob = (\<lambda>s. if s = ''undefined'' then None else Some (bytes_of s)),
           btoa = string_of,
           json_stringify = (\<lambda>v. ''{}''),
           json_parse_bytes = (\<lambda>b. Inr (JObj [(''ok'', JBool True), (''result'', JStr ''done'')])),
           text_encode = bytes_of,
           ed25519_getPublicKey = (\<lambda>priv. priv),
           aes_gcm_encrypt = (\<lambda>password salt nonce plaintext. Inr plaintext),
           aes_gcm_decrypt = (\<lambda>password salt nonce ciphertext. Some ciphertext),
           host = h,
           storage_skips_undefined = False\<rparr>"

text \<open>
  The same environment on either store: \<open>E0_on True h\<close> skips the properties whose value
  is \<^verbatim>\<open>undefined\<close>, \<open>E0_on False h\<close> is \<open>E0 h\<close>.
\<close>

definition E0_on :: "bool \<Rightarrow> (event list \<Rightarrow> string \<Rightarrow> jsval \<Rightarrow> string + jsval) \<Rightarrow> env" where
  "E0_on skips h = (E0 h)\<lparr>storage_skips_undefined := skips\<rparr>"

definition world0 :: world where
  "world0 = \<lparr>storage = Map.empty, session = None, ephemeralKeyPair = None,
             inMemoryKeypair = None, pendingKeypair = None, unlocking = False,
             db_record = None, heap = (\<lambda>a. []), next_addr = 0, draws = 0, trace = []\<rparr>"

definition client0 :: keypair where
  "client0 = \<lparr>publicKey = [1, 2, 3], privateKey = [4, 5, 6]\<rparr>"

text \<open>A paired world whose client key pair is unlocked, and the desktop's answers.\<close>

definition paired0 :: "string \<Rightarrow> world" where
  "paired0 edpk =
     world0\<lparr>storage := [STORAGE_fingerprint \<mapsto> JStr ''ff00aa11'',
                        STORAGE_ed25519PublicKey \<mapsto> JStr edpk,
                        STORAGE_x25519PublicKey \<mapsto> JStr ''xpk'',
                        STORAGE_paired \<mapsto> JBool True],
            inMemoryKeypair := Some client0\<rparr>"

definition begin_response :: jsval where
  "begin_response = JObj [(''hostEphemeralPubB64'', JStr ''0123456789abcdef0123456789abcdef''),
                          (''signatureB64'', JStr ''sig''),
                          (''sessionId'', JStr ''session-1'')]"

definition host_timeout :: "event list \<Rightarrow> string \<Rightarrow> jsval \<Rightarrow> string + jsval" where
  "host_timeout tr command params = Inl ''RequestTimeout''"

definition host_ok :: "event list \<Rightarrow> string \<Rightarrow> jsval \<Rightarrow> string + jsval" where
  "host_ok tr command params =
     (if command = ''nmBeginHandshake'' then Inr begin_response
      else if command = ''nmFinishHandshake'' then Inr (JObj [(''ok'', JBool True)])
      else if command = ''nmSecureRequest''
      then Inr (JObj [(''nonceB64'', JStr ''n''), (''ciphertextB64'', JStr ''c'')])
      else Inl ''NotImplemented'')"

text \<open>
  A desktop that answers every secure request with an undecryptable ciphertext and
  refuses to finish a handshake because it is busy.
\<close>

definition host_busy :: "event list \<Rightarrow> string \<Rightarrow> jsval \<Rightarrow> string + jsval" where
  "host_busy tr command params =
     (if command = ''nmBeginHandshake'' then Inr begin_response
      else if command = ''nmFinishHandshake''
      then Inr (JObj [(''ok'', JBool False), (''error'', JStr ''Busy'')])
      else if command = ''nmSecureRequest''
      then Inr (JObj [(''nonceB64'', JStr ''n''), (''ciphertextB64'', JStr ''bad'')])
      else Inl ''NotImplemented'')"

text \<open>
  A desktop whose answer to the first secure request cannot be decrypted and that
  answers properly from then on.
\<close>

definition host_flaky :: "event list \<Rightarrow> string \<Rightarrow> jsval \<Rightarrow> string + jsval" where
  "host_flaky tr command params =
     (if command = ''nmBeginHandshake'' then Inr begin_response
      else if command = ''nmFinishHandshake'' then Inr (JObj [(''ok'', JBool True)])
      else if command = ''nmSecureRequest''
      then Inr (JObj [(''nonceB64'', JStr ''n''),
                      (''ciphertextB64'', JStr (if sent_seqs tr = [] then ''bad'' else ''c''))])
      else Inl ''NotImplemented'')"

definition session0 :: session_rec where
  "session0 = \<lparr>sid = JStr ''session-0'', skey = replicate 32 7, seq = 0,
               hostEphemeralPubB64 = JStr ''host''\<rparr>"

text \<open>
  The events of a handshake are requests, the signature check and notifications: no
  attempt of a secure request, no entry of \<^verbatim>\<open>ensureSession\<close>, no dropped session.
\<close>

definition handshake_events :: "event list \<Rightarrow> bool" where
  "handshake_events evs =
     (count_event CallAttempt evs = 0 \<and> count_event CallEnsureSession evs = 0 \<and>
      count_event DropSession evs = 0)"

text \<open>The state between a successful \<^verbatim>\<open>beginHandshake\<close> and \<^verbatim>\<open>finishHandshake\<close>.\<close>

text \<open>A paired world with an unlocked client key pair and an active session.\<close>

definition active0 :: world where
  "active0 = (paired0 ''sig'')\<lparr>session := Some session0\<rparr>"

text \<open>The same, with a pinned signing key that the desktop's signatures do not match.\<close>

definition stale0 :: world where
  "stale0 = (paired0 ''desktop-edpk'')\<lparr>session := Some session0\<rparr>"

definition handshaking0 :: world where
  "handshaking0 = snd (beginHandshake (E0 host_ok) C0 (paired0 ''sig''))"

text \<open>
  The state once \<^verbatim>\<open>beginHandshake\<close> has generated its ephemeral key pair, kept it in
  the instance and sent the request.
\<close>

definition begin_sent :: "env \<Rightarrow> world \<Rightarrow> world" where
  "begin_sent E w =
     log_event (SendRequest ''nmBeginHandshake'' (begin_params E w))
       (w\<lparr>heap := (heap w)(next_addr w := random_bytes E (draws w) 32,
                              next_addr w + 1 := own_ephemeral_public E w),
          next_addr := next_addr w + 2,
          draws := draws w + 1,
          ephemeralKeyPair := Some \<lparr>eph_privateKey = next_addr w, eph_publicKey = next_addr w + 1\<rparr>\<rparr>)"

section \<open>Basic facts\<close>

lemma C0_fields:
  "NOT_PAIRED C0 = ''NotPaired''"
  "NO_SESSION C0 = ''NoSession''"
  "SIGNATURE_INVALID C0 = ''SignatureInvalid''"
  "IDENTITY_KEYS_UNAVAILABLE C0 = ''IdentityKeysUnavailable''"
  "HANDSHAKE_FAILED C0 = ''HandshakeFailed''"
  "DECRYPT_FAILED C0 = ''DecryptFailed''"
  "MASTER_PASSWORD_REQUIRED C0 = ''MasterPasswordRequired''"
  by (simp_all add: C0_def)

lemma fold_total_length:
  "fold (\<lambda>arr acc. acc + length arr) arrays n = n + length (concat arrays)"
  by (induction arrays arbitrary: n) auto

lemma typed_set_fits:
  "typed_set (pre @ replicate (length arr + n) 0 @ post) arr (length pre)
     = Inr (pre @ arr @ replicate n 0 @ post)"
  by (simp add: typed_set_def replicate_add)

lemma concat_loop_fits:
  "concat_loop arrays (pre @ replicate (length (concat arrays)) 0 @ post) (length pre)
     = Inr (pre @ concat arrays @ post)"
proof (induction arrays arbitrary: pre)
  case Nil
  then show ?case by simp
next
  case (Cons arr arrays)
  have "concat_loop (arr # arrays) (pre @ replicate (length (concat (arr # arrays))) 0 @ post) (length pre)
        = concat_loop arrays ((pre @ arr) @ replicate (length (concat arrays)) 0 @ post) (length (pre @ arr))"
    using typed_set_fits [of pre arr "length (concat arrays)" post] by simp
  also have "\<dots> = Inr ((pre @ arr) @ concat arrays @ post)"
    by (rule Cons.IH)
  finally show ?case by simp
qed

lemma concatUint8Arrays_concat: "concatUint8Arrays arrays = Inr (concat arrays)"
  using concat_loop_fits [of arrays "[]" "[]"]
  by (simp add: concatUint8Arrays_def fold_total_length)

lemma getOrCreateClientIdentity_cases:
  "getOrCreateClientIdentity E C w =
     (case inMemoryKeypair w of
        Some kp \<Rightarrow> (Inr kp, w)
      | None \<Rightarrow> (Inl (if unlocking w then ''UnlockInProgress'' else MASTER_PASSWORD_REQUIRED C), w))"
  by (simp add: getOrCreateClientIdentity_def ensureClientKeypairUnlocked_def split: option.splits)

lemma storage_keys_distinct:
  "STORAGE_fingerprint \<noteq> STORAGE_ed25519PublicKey"
  "STORAGE_fingerprint \<noteq> STORAGE_x25519PublicKey"
  "STORAGE_fingerprint \<noteq> STORAGE_paired"
  "STORAGE_ed25519PublicKey \<noteq> STORAGE_x25519PublicKey"
  "STORAGE_ed25519PublicKey \<noteq> STORAGE_paired"
  "STORAGE_x25519PublicKey \<noteq> STORAGE_paired"
  by (simp_all add: STORAGE_fingerprint_def STORAGE_ed25519PublicKey_def
      STORAGE_x25519PublicKey_def STORAGE_paired_def)

lemma getPinnedIdentity_cong:
  "storage w' = storage w \<Longrightarrow> getPinnedIdentity w' = getPinnedIdentity w"
  by (simp add: getPinnedIdentity_def storageGet_def)

text \<open>What \<^verbatim>\<open>unpair()\<close> leaves in the store, for either handling of undefined.\<close>

lemma storage_unpair_assigned:
  "\<not> storage_skips_undefined E \<Longrightarrow>
   storage (unpair E w) =
     (storage w)(STORAGE_fingerprint \<mapsto> JUndefined, STORAGE_ed25519PublicKey \<mapsto> JUndefined,
                 STORAGE_x25519PublicKey \<mapsto> JUndefined, STORAGE_paired \<mapsto> JBool False)"
  by (simp add: unpair_def storageSet_def)

lemma storage_unpair_skipped:
  "storage_skips_undefined E \<Longrightarrow>
   storage (unpair E w) = (storage w)(STORAGE_paired \<mapsto> JBool False)"
  by (simp add: unpair_def storageSet_def)

lemma paired_flag_unpair: "storage (unpair E w) STORAGE_paired = Some (JBool False)"
  by (simp add: unpair_def storageSet_def)

lemma getPinnedIdentity_unpair:
  "\<not> storage_skips_undefined E \<Longrightarrow> getPinnedIdentity (unpair E w) = None"
  using storage_keys_distinct
  by (simp add: getPinnedIdentity_def storageGet_def res_at_def storage_unpair_assigned Let_def)

lemma getPinnedIdentity_unpair_skipped:
  "storage_skips_undefined E \<Longrightarrow> getPinnedIdentity (unpair E w) = getPinnedIdentity w"
  using storage_keys_distinct
  by (simp add: getPinnedIdentity_def storageGet_def res_at_def storage_unpair_skipped Let_def)

lemma getPinnedIdentity_unpair_None:
  "getPinnedIdentity w = None \<Longrightarrow> getPinnedIdentity (unpair E w) = None"
  using getPinnedIdentity_unpair [of E w] getPinnedIdentity_unpair_skipped [of E w]
  by (cases "storage_skips_undefined E") simp_all


lemma E0_fields [simp]:
  "host (E0 h) = h"
  "storage_skips_undefined (E0 h) = False"
  by (simp_all add: E0_def)

lemma getPinnedIdentity_paired0:
  "getPinnedIdentity (paired0 edpk) =
     (if edpk = [] then None
      else Some \<lparr>fingerprint = JStr ''ff00aa11'', ed25519PublicKey = JStr edpk,
                 x25519PublicKey = JStr ''xpk''\<rparr>)"
  using storage_keys_distinct
  by (simp add: getPinnedIdentity_def storageGet_def res_at_def paired0_def world0_def Let_def)

section \<open>The cipher wrapper\<close>

text \<open>
  The XSalsa20-Poly1305 cipher belongs to a library and is a parameter of the model, so
  the round trip of C8 is a property of that parameter, and the rejection of tampered
  ciphertexts is a guarantee against forgery that has no statement over all byte
  strings: the ciphertext of another payload differs from the original one and is
  accepted. What the wrapper itself adds is that a failed \<^verbatim>\<open>decrypt\<close> comes back as
  \<^verbatim>\<open>null\<close>, and that it hands the cipher's round trip on.
\<close>

lemma secretbox_roundtrip_of_cipher:
  assumes "\<And>key nonce plaintext.
             xsalsa_decrypt E key nonce (xsalsa_encrypt E key nonce plaintext) = Some plaintext"
  shows "secretboxOpen E (secretbox E plaintext nonce key) nonce key = Some plaintext"
  using assms by (simp add: secretbox_def secretboxOpen_def)

lemma secretboxOpen_null_iff:
  "secretboxOpen E ciphertext nonce key = None \<longleftrightarrow> xsalsa_decrypt E key nonce ciphertext = None"
  by (simp add: secretboxOpen_def)

lemma other_ciphertext_accepted:
  assumes "\<And>key nonce plaintext.
             xsalsa_decrypt E key nonce (xsalsa_encrypt E key nonce plaintext) = Some plaintext"
      and "p' \<noteq> p"
  shows "secretbox E p' nonce key \<noteq> secretbox E p nonce key \<and>
         secretboxOpen E (secretbox E p' nonce key) nonce key = Some p'"
proof -
  have "secretboxOpen E (secretbox E q nonce key) nonce key = Some q" for q
    using assms(1) by (rule secretbox_roundtrip_of_cipher)
  then show ?thesis
    using assms(2) by (metis option.inject)
qed

section \<open>Unpairing\<close>




text \<open>
  On a store that leaves out a property whose value is undefined, \<^verbatim>\<open>unpair()\<close> writes
  the paired flag only, and a pinned identity stays pinned.
\<close>

lemma unpair_keeps_identity_when_skipped:
  assumes "storage_skips_undefined E"
  shows "getPinnedIdentity (unpair E w) = getPinnedIdentity w"
    and "isPaired (unpair E w) = isPaired w"
  using assms by (simp_all add: isPaired_def getPinnedIdentity_unpair_skipped)

section \<open>Unlocking the client key pair\<close>

text \<open>
  C9, as the code has it: when a key pair is already unlocked in memory,
  \<^verbatim>\<open>ensureClientKeypairUnlocked\<close> returns it and changes nothing, whatever the secret
  (also none); otherwise, when no unlock is in progress and the secret is absent or
  empty, it rejects with the master-password-required error and changes nothing, the
  persisted record included.
\<close>

theorem ensureClientKeypairUnlocked_cached_or_required:
  "(inMemoryKeypair w = Some kp \<longrightarrow>
      ensureClientKeypairUnlocked E C masterPassword w = (Inr kp, w)) \<and>
   (inMemoryKeypair w = None \<and> \<not> unlocking w \<and>
    (masterPassword = None \<or> masterPassword = Some []) \<longrightarrow>
      ensureClientKeypairUnlocked E C masterPassword w = (Inl (MASTER_PASSWORD_REQUIRED C), w))"
  by (auto simp add: ensureClientKeypairUnlocked_def)

theorem ensureClientKeypairUnlocked_cached_or_required_witness:
  "ensureClientKeypairUnlocked (E0 host_ok) C0 None (paired0 ''sig'')
     = (Inr client0, paired0 ''sig'') \<and>
   ensureClientKeypairUnlocked (E0 host_ok) C0 (Some []) world0
     = (Inl ''MasterPasswordRequired'', world0) \<and>
   ensureClientKeypairUnlocked (E0 host_ok) C0 None world0
     = (Inl ''MasterPasswordRequired'', world0)"
  using ensureClientKeypairUnlocked_cached_or_required
          [of "paired0 ''sig''" client0 "E0 host_ok" C0 None]
        ensureClientKeypairUnlocked_cached_or_required
          [of world0 client0 "E0 host_ok" C0 "Some []"]
        ensureClientKeypairUnlocked_cached_or_required
          [of world0 client0 "E0 host_ok" C0 None]
  by (simp add: paired0_def world0_def C0_def)

text \<open>
  The claim as stated fails while another unlock is outstanding: with no key pair in
  memory and no secret, the call rejects with \<^verbatim>\<open>UnlockInProgress\<close>, which is not the
  master-password-required error.
\<close>

theorem ensureClientKeypairUnlocked_unlock_in_progress:
  "inMemoryKeypair (world0\<lparr>unlocking := True\<rparr>) = None \<and>
   ensureClientKeypairUnlocked (E0 host_ok) C0 None (world0\<lparr>unlocking := True\<rparr>)
     = (Inl ''UnlockInProgress'', world0\<lparr>unlocking := True\<rparr>) \<and>
   ''UnlockInProgress'' \<noteq> MASTER_PASSWORD_REQUIRED C0"
  by (simp add: ensureClientKeypairUnlocked_def world0_def C0_def)

section \<open>Secure requests without a session\<close>

text \<open>
  C10: \<^verbatim>\<open>secureRequest\<close> called while no session object is held throws the no-session
  error at once. The state is returned as it was and the call adds no event: no
  attempt was made, so nothing was encrypted (no nonce was drawn) or sent,
  \<^verbatim>\<open>ensureSession\<close> did not run and nothing was retried.
\<close>

theorem secureRequest_without_session:
  assumes "session w = None"
      and "secureRequest E C method params w = (r, w')"
  shows "r = Inl (NO_SESSION C) \<and> w' = w \<and> new_events w w' = [] \<and>
         draws w' = draws w"
  using assms by (auto simp add: secureRequest_def new_events_def)

theorem secureRequest_without_session_witness:
  "session (paired0 ''sig'') = None \<and>
   fst (secureRequest (E0 host_ok) C0 ''getVaults'' JNull (paired0 ''sig'')) = Inl ''NoSession'' \<and>
   snd (secureRequest (E0 host_ok) C0 ''getVaults'' JNull (paired0 ''sig'')) = paired0 ''sig'' \<and>
   new_events (paired0 ''sig'')
     (snd (secureRequest (E0 host_ok) C0 ''getVaults'' JNull (paired0 ''sig''))) = []"
proof -
  have h: "session (paired0 ''sig'') = None"
    by (simp add: paired0_def world0_def)
  show ?thesis
    using h secureRequest_without_session
              [OF h surjective_pairing, of "E0 host_ok" C0 "''getVaults''" JNull]
    by (simp add: C0_fields new_events_def)
qed

section \<open>Beginning a handshake\<close>

lemma begin_sent_simps [simp]:
  "storage (begin_sent E w) = storage w"
  "session (begin_sent E w) = session w"
  "inMemoryKeypair (begin_sent E w) = inMemoryKeypair w"
  "pendingKeypair (begin_sent E w) = pendingKeypair w"
  "unlocking (begin_sent E w) = unlocking w"
  "db_record (begin_sent E w) = db_record w"
  "ephemeralKeyPair (begin_sent E w)
     = Some \<lparr>eph_privateKey = next_addr w, eph_publicKey = next_addr w + 1\<rparr>"
  "trace (begin_sent E w) = trace w @ [SendRequest ''nmBeginHandshake'' (begin_params E w)]"
  "heap (begin_sent E w) (next_addr w) = random_bytes E (draws w) 32"
  "heap (begin_sent E w) (Suc (next_addr w)) = own_ephemeral_public E w"
  by (simp_all add: begin_sent_def log_event_def)

lemma log_event_simps [simp]:
  "storage (log_event e w) = storage w"
  "session (log_event e w) = session w"
  "ephemeralKeyPair (log_event e w) = ephemeralKeyPair w"
  "inMemoryKeypair (log_event e w) = inMemoryKeypair w"
  "pendingKeypair (log_event e w) = pendingKeypair w"
  "unlocking (log_event e w) = unlocking w"
  "db_record (log_event e w) = db_record w"
  "heap (log_event e w) = heap w"
  "next_addr (log_event e w) = next_addr w"
  "draws (log_event e w) = draws w"
  "trace (log_event e w) = trace w @ [e]"
  by (simp_all add: log_event_def)

lemma getPinnedIdentity_begin_sent [simp]:
  "getPinnedIdentity (begin_sent E w) = getPinnedIdentity w"
  by (rule getPinnedIdentity_cong) simp

lemma begin_request_sent:
  "sendRequest E ''nmBeginHandshake''
     (JObj [(''extEphemeralPubB64'',
             JStr (base64Encode E (x25519_getPublicKey E (random_bytes E (draws w) 32))))])
     (w\<lparr>heap := (heap w)(next_addr w := random_bytes E (draws w) 32,
                            Suc (next_addr w) := x25519_getPublicKey E (random_bytes E (draws w) 32)),
        next_addr := Suc (Suc (next_addr w)),
        draws := Suc (draws w),
        ephemeralKeyPair := Some \<lparr>eph_privateKey = next_addr w, eph_publicKey = Suc (next_addr w)\<rparr>\<rparr>)
   = (host E (trace w) ''nmBeginHandshake'' (begin_params E w), begin_sent E w)"
  by (simp add: sendRequest_def begin_sent_def begin_params_def own_ephemeral_public_def
      log_event_def)

lemma beginHandshake_try_rejected:
  assumes "host E (trace w) ''nmBeginHandshake'' (begin_params E w) = Inl e"
  shows "beginHandshake_try E C w = (Inl e, begin_sent E w)"
  using assms
  by (simp add: beginHandshake_try_def generateX25519KeyPair_def Let_def begin_request_sent)

lemma beginHandshake_try_not_paired:
  assumes "host E (trace w) ''nmBeginHandshake'' (begin_params E w) = Inr resp"
      and "getPinnedIdentity w = None"
  shows "beginHandshake_try E C w
           = (Inr (HsFail (NOT_PAIRED C)), clearSession E (NOT_PAIRED C) (begin_sent E w))"
  using assms
  by (simp add: beginHandshake_try_def generateX25519KeyPair_def Let_def begin_request_sent)

lemma beginHandshake_try_verified:
  assumes "host E (trace w) ''nmBeginHandshake'' (begin_params E w) = Inr resp"
      and "getPinnedIdentity w = Some pinnedIdentity"
      and "get_prop resp ''hostEphemeralPubB64'' = Inr hostB64"
      and "base64Decode E hostB64 = Inr hostBytes"
      and "inMemoryKeypair w = Some clientIdentity"
      and "base64Decode E (ed25519PublicKey pinnedIdentity) = Inr desktopKey"
      and "get_prop resp ''signatureB64'' = Inr sigB64"
      and "base64Decode E sigB64 = Inr signature"
  shows "beginHandshake_try E C w =
     (if \<not> verifyEd25519Signature E
              (hostBytes @ own_ephemeral_public E w @ publicKey clientIdentity)
              signature desktopKey
      then (Inr (HsFail (SIGNATURE_INVALID C)), log_event CallVerify (begin_sent E w))
      else
        (case x25519_getSharedSecret E (random_bytes E (draws w) 32) hostBytes of
           Inl e \<Rightarrow> (Inl e, log_event CallVerify (begin_sent E w))
         | Inr sharedSecret \<Rightarrow>
             (case get_prop resp ''sessionId'' of
                Inl e \<Rightarrow> (Inl e, log_event CallVerify (begin_sent E w))
              | Inr sessionId \<Rightarrow>
                  (Inr (HsOk sessionId),
                   (log_event StoreSession (log_event CallVerify (begin_sent E w)))
                     \<lparr>session := Some
                        \<lparr>sid = sessionId,
                         skey = take 32 (sha256 E (sharedSecret @ hostBytes @
                                  own_ephemeral_public E w @ publicKey clientIdentity)),
                         seq = 0,
                         hostEphemeralPubB64 = hostB64\<rparr>\<rparr>))))"
  using assms
  by (simp add: beginHandshake_try_def generateX25519KeyPair_def Let_def begin_request_sent
      getOrCreateClientIdentity_cases concatUint8Arrays_concat own_ephemeral_public_def
      split: sum.splits)


lemma get_prop_defined:
  "get_prop v k = Inr x \<Longrightarrow> get_prop v k' = Inr (opt_prop v k')"
  by (cases v) simp_all

lemma clearSession_simps [simp]:
  "storage (clearSession E reason w) = storage (unpair E w)"
  "session (clearSession E reason w) = None"
  "ephemeralKeyPair (clearSession E reason w) = None"
  "inMemoryKeypair (clearSession E reason w) = None"
  "db_record (clearSession E reason w) = None"
  "heap (clearSession E reason w) = heap w"
  "trace (clearSession E reason w) = trace w @ [PairingRequired reason]"
  by (simp_all add: clearSession_def clearClientKeypair_def unpair_def storageSet_def
      log_event_def Let_def)

lemma paired_flag_clearSession [simp]:
  "storage (clearSession E reason w) STORAGE_paired = Some (JBool False)"
  by (simp add: paired_flag_unpair)

lemma getPinnedIdentity_clearSession:
  "\<not> storage_skips_undefined E \<Longrightarrow> getPinnedIdentity (clearSession E reason w) = None"
  using getPinnedIdentity_cong [of "clearSession E reason w" "unpair E w"]
  by (simp add: getPinnedIdentity_unpair)

lemma getPinnedIdentity_clearSession_None:
  "getPinnedIdentity w = None \<Longrightarrow> getPinnedIdentity (clearSession E reason w) = None"
  using getPinnedIdentity_cong [of "clearSession E reason w" "unpair E w"]
  by (simp add: getPinnedIdentity_unpair_None)

lemma storage_unpair_frame [simp]: "storage (unpair E (begin_sent E' w)) = storage (unpair E w)"
  by (simp add: unpair_def storageSet_def)

lemma new_events_append [simp]:
  "trace w' = trace w @ evs \<Longrightarrow> new_events w w' = evs"
  by (simp add: new_events_def)

text \<open>
  C3: a pinned identity is present and the signature received from the desktop fails
  verification over the transcript (the desktop answered, the keys and the signature
  decode, the client identity is unlocked, and the check says no). Then
  \<^verbatim>\<open>beginHandshake\<close> returns the failure "signature invalid", local storage and with it
  the pinned identity are as before, no session is stored (the session slot is
  untouched) and no pairing-required notification is emitted.
\<close>

theorem beginHandshake_signature_invalid:
  assumes "host E (trace w) ''nmBeginHandshake'' (begin_params E w) = Inr resp"
      and "getPinnedIdentity w = Some pinnedIdentity"
      and "get_prop resp ''hostEphemeralPubB64'' = Inr hostB64"
      and "base64Decode E hostB64 = Inr hostBytes"
      and "inMemoryKeypair w = Some clientIdentity"
      and "base64Decode E (ed25519PublicKey pinnedIdentity) = Inr desktopKey"
      and "get_prop resp ''signatureB64'' = Inr sigB64"
      and "base64Decode E sigB64 = Inr signature"
      and "\<not> verifyEd25519Signature E
               (hostBytes @ own_ephemeral_public E w @ publicKey clientIdentity)
               signature desktopKey"
      and "beginHandshake E C w = (result, w')"
  shows "result = HsFail (SIGNATURE_INVALID C) \<and>
         storage w' = storage w \<and>
         getPinnedIdentity w' = Some pinnedIdentity \<and>
         session w' = session w \<and>
         notifications (new_events w w') = []"
proof -
  have "beginHandshake_try E C w
          = (Inr (HsFail (SIGNATURE_INVALID C)), log_event CallVerify (begin_sent E w))"
    using beginHandshake_try_verified [OF assms(1-8), of C] assms(9) by simp
  then have r: "result = HsFail (SIGNATURE_INVALID C)"
    and w': "w' = log_event CallVerify (begin_sent E w)"
    using assms(10) by (simp_all add: beginHandshake_def)
  have "trace w' = trace w @ [SendRequest ''nmBeginHandshake'' (begin_params E w), CallVerify]"
    by (simp add: w')
  then have "notifications (new_events w w') = []"
    by simp
  moreover have "getPinnedIdentity w' = Some pinnedIdentity"
    using getPinnedIdentity_cong [of w' w] assms(2) by (simp add: w')
  ultimately show ?thesis
    by (simp add: r w')
qed

text \<open>
  C4, as the code has it: \<^verbatim>\<open>beginHandshake\<close> is called while no complete pinned identity
  is stored and the desktop answers the handshake request. Then the result is the
  failure "not paired", the pinned fields and the client identity (the persisted record
  and the unlocked key pair) are cleared, the session and the ephemeral key pair are
  dropped, no signature verification is attempted, and exactly one pairing-required
  notification is emitted, with that same reason.
\<close>

theorem beginHandshake_not_paired:
  assumes "host E (trace w) ''nmBeginHandshake'' (begin_params E w) = Inr resp"
      and "getPinnedIdentity w = None"
      and "beginHandshake E C w = (result, w')"
  shows "result = HsFail (NOT_PAIRED C) \<and>
         storage w' = storage (unpair E w) \<and>
         getPinnedIdentity w' = None \<and>
         db_record w' = None \<and>
         inMemoryKeypair w' = None \<and>
         session w' = None \<and>
         ephemeralKeyPair w' = None \<and>
         count_event CallVerify (new_events w w') = 0 \<and>
         notifications (new_events w w') = [NOT_PAIRED C]"
proof -
  have r: "result = HsFail (NOT_PAIRED C)"
    and w': "w' = clearSession E (NOT_PAIRED C) (begin_sent E w)"
    using beginHandshake_try_not_paired [OF assms(1,2), of C] assms(3)
    by (simp_all add: beginHandshake_def)
  have "trace w' = trace w @ [SendRequest ''nmBeginHandshake'' (begin_params E w),
                              PairingRequired (NOT_PAIRED C)]"
    by (simp add: w')
  then have "new_events w w' = [SendRequest ''nmBeginHandshake'' (begin_params E w),
                                PairingRequired (NOT_PAIRED C)]"
    by simp
  then show ?thesis
    using assms(2)
    by (simp add: r w' count_event_def getPinnedIdentity_clearSession_None)
qed


lemma host_ok_begin [simp]:
  "host_ok tr ''nmBeginHandshake'' params = Inr begin_response"
  by (simp add: host_ok_def)

lemma begin_response_props [simp]:
  "get_prop begin_response ''hostEphemeralPubB64'' = Inr (JStr ''0123456789abcdef0123456789abcdef'')"
  "get_prop begin_response ''signatureB64'' = Inr (JStr ''sig'')"
  "opt_prop begin_response ''sessionId'' = JStr ''session-1''"
  by (simp_all add: begin_response_def)

lemma base64Decode_E0 [simp]:
  "s \<noteq> ''undefined'' \<Longrightarrow> base64Decode (E0 h) (JStr s) = Inr (bytes_of s)"
  by (simp add: base64Decode_def E0_def)

lemma paired0_fields [simp]:
  "inMemoryKeypair (paired0 edpk) = Some client0"
  "session (paired0 edpk) = None"
  "trace (paired0 edpk) = []"
  "draws (paired0 edpk) = 0"
  "next_addr (paired0 edpk) = 0"
  "ephemeralKeyPair (paired0 edpk) = None"
  by (simp_all add: paired0_def world0_def)

theorem beginHandshake_signature_invalid_witness:
  "getPinnedIdentity (paired0 ''desktop-edpk'')
     = Some \<lparr>fingerprint = JStr ''ff00aa11'', ed25519PublicKey = JStr ''desktop-edpk'',
              x25519PublicKey = JStr ''xpk''\<rparr> \<and>
   fst (beginHandshake (E0 host_ok) C0 (paired0 ''desktop-edpk'')) = HsFail ''SignatureInvalid'' \<and>
   getPinnedIdentity (snd (beginHandshake (E0 host_ok) C0 (paired0 ''desktop-edpk'')))
     = Some \<lparr>fingerprint = JStr ''ff00aa11'', ed25519PublicKey = JStr ''desktop-edpk'',
              x25519PublicKey = JStr ''xpk''\<rparr> \<and>
   session (snd (beginHandshake (E0 host_ok) C0 (paired0 ''desktop-edpk''))) = None \<and>
   notifications (new_events (paired0 ''desktop-edpk'')
      (snd (beginHandshake (E0 host_ok) C0 (paired0 ''desktop-edpk'')))) = []"
proof -
  let ?w = "paired0 ''desktop-edpk''"
  let ?E = "E0 host_ok"
  have h1: "host ?E (trace ?w) ''nmBeginHandshake'' (begin_params ?E ?w) = Inr begin_response"
    by simp
  have h2: "getPinnedIdentity ?w
              = Some \<lparr>fingerprint = JStr ''ff00aa11'', ed25519PublicKey = JStr ''desktop-edpk'',
                       x25519PublicKey = JStr ''xpk''\<rparr>"
    by (simp add: getPinnedIdentity_paired0)
  have h3: "get_prop begin_response ''hostEphemeralPubB64''
              = Inr (JStr ''0123456789abcdef0123456789abcdef'')"
    by simp
  have h4: "base64Decode ?E (JStr ''0123456789abcdef0123456789abcdef'')
              = Inr (bytes_of ''0123456789abcdef0123456789abcdef'')"
    by simp
  have h5: "inMemoryKeypair ?w = Some client0"
    by simp
  have h6: "base64Decode ?E (ed25519PublicKey \<lparr>fingerprint = JStr ''ff00aa11'',
              ed25519PublicKey = JStr ''desktop-edpk'', x25519PublicKey = JStr ''xpk''\<rparr>)
              = Inr (bytes_of ''desktop-edpk'')"
    by simp
  have h7: "get_prop begin_response ''signatureB64'' = Inr (JStr ''sig'')"
    by simp
  have h8: "base64Decode ?E (JStr ''sig'') = Inr (bytes_of ''sig'')"
    by simp
  have h9: "\<not> verifyEd25519Signature ?E
               (bytes_of ''0123456789abcdef0123456789abcdef'' @ own_ephemeral_public ?E ?w @
                publicKey client0)
               (bytes_of ''sig'') (bytes_of ''desktop-edpk'')"
    by (simp add: verifyEd25519Signature_def E0_def bytes_of_def)
  show ?thesis
    using beginHandshake_signature_invalid [OF h1 h2 h3 h4 h5 h6 h7 h8 h9 surjective_pairing, of C0] h2
    by (simp add: C0_def)
qed

theorem beginHandshake_not_paired_witness:
  "getPinnedIdentity (world0\<lparr>inMemoryKeypair := Some client0\<rparr>) = None \<and>
   fst (beginHandshake (E0 host_ok) C0 (world0\<lparr>inMemoryKeypair := Some client0\<rparr>))
     = HsFail ''NotPaired'' \<and>
   getPinnedIdentity (snd (beginHandshake (E0 host_ok) C0 (world0\<lparr>inMemoryKeypair := Some client0\<rparr>)))
     = None \<and>
   inMemoryKeypair (snd (beginHandshake (E0 host_ok) C0 (world0\<lparr>inMemoryKeypair := Some client0\<rparr>)))
     = None \<and>
   count_event CallVerify (new_events (world0\<lparr>inMemoryKeypair := Some client0\<rparr>)
      (snd (beginHandshake (E0 host_ok) C0 (world0\<lparr>inMemoryKeypair := Some client0\<rparr>)))) = 0 \<and>
   notifications (new_events (world0\<lparr>inMemoryKeypair := Some client0\<rparr>)
      (snd (beginHandshake (E0 host_ok) C0 (world0\<lparr>inMemoryKeypair := Some client0\<rparr>))))
     = [''NotPaired'']"
proof -
  let ?w = "world0\<lparr>inMemoryKeypair := Some client0\<rparr>"
  let ?E = "E0 host_ok"
  have h1: "host ?E (trace ?w) ''nmBeginHandshake'' (begin_params ?E ?w) = Inr begin_response"
    by simp
  have h2: "getPinnedIdentity ?w = None"
    by (simp add: getPinnedIdentity_def storageGet_def res_at_def world0_def)
  show ?thesis
    using beginHandshake_not_paired [OF h1 h2 surjective_pairing, of C0] h2
    by (simp add: C0_def)
qed

text \<open>
  The claim as stated, for every call made while unpaired, fails when the handshake
  request itself is rejected: pairing is looked at only after the desktop has answered,
  so a timeout is reported as such, nothing is cleared and nothing is notified.
\<close>

theorem beginHandshake_unpaired_request_rejected:
  "getPinnedIdentity (world0\<lparr>inMemoryKeypair := Some client0\<rparr>) = None \<and>
   fst (beginHandshake (E0 host_timeout) C0 (world0\<lparr>inMemoryKeypair := Some client0\<rparr>))
     = HsFail ''RequestTimeout'' \<and>
   HsFail ''RequestTimeout'' \<noteq> HsFail (NOT_PAIRED C0) \<and>
   inMemoryKeypair (snd (beginHandshake (E0 host_timeout) C0 (world0\<lparr>inMemoryKeypair := Some client0\<rparr>)))
     = Some client0 \<and>
   notifications (new_events (world0\<lparr>inMemoryKeypair := Some client0\<rparr>)
      (snd (beginHandshake (E0 host_timeout) C0 (world0\<lparr>inMemoryKeypair := Some client0\<rparr>))))
     = []"
proof -
  let ?w = "world0\<lparr>inMemoryKeypair := Some client0\<rparr>"
  let ?E = "E0 host_timeout"
  have h1: "host ?E (trace ?w) ''nmBeginHandshake'' (begin_params ?E ?w) = Inl ''RequestTimeout''"
    by (simp add: E0_def host_timeout_def)
  have h2: "getPinnedIdentity ?w = None"
    by (simp add: getPinnedIdentity_def storageGet_def res_at_def world0_def)
  have inc: "\<not> str_includes ''RequestTimeout'' (IDENTITY_KEYS_UNAVAILABLE C0)"
    by (simp add: C0_def)
  have b: "beginHandshake ?E C0 ?w = (HsFail ''RequestTimeout'', begin_sent ?E ?w)"
    using beginHandshake_try_rejected [OF h1, of C0] inc
    by (simp add: beginHandshake_def)
  have "trace (begin_sent ?E ?w) = trace ?w @ [SendRequest ''nmBeginHandshake'' (begin_params ?E ?w)]"
    by simp
  then have n: "notifications (new_events ?w (begin_sent ?E ?w)) = []"
    by simp
  show ?thesis
    unfolding b using h2 n by (simp add: C0_def)
qed

text \<open>
  C1: on the path where the handshake succeeds (the desktop answered, a pinned identity
  is present, the keys and the signature decode, the client identity is unlocked, the
  signature verifies and the key exchange yields a shared secret), the session stored
  by \<^verbatim>\<open>beginHandshake\<close> has as its key the first 32 bytes of SHA-256 of the shared
  secret followed by the transcript, the transcript being the peer's ephemeral public
  key, the own ephemeral public key and the client's long-term public key. The key is
  a function of the shared secret and the transcript alone, so equal inputs give equal
  keys. The session starts with sequence counter 0.
\<close>

theorem beginHandshake_session_key:
  assumes "host E (trace w) ''nmBeginHandshake'' (begin_params E w) = Inr resp"
      and "getPinnedIdentity w = Some pinnedIdentity"
      and "get_prop resp ''hostEphemeralPubB64'' = Inr hostB64"
      and "base64Decode E hostB64 = Inr hostBytes"
      and "inMemoryKeypair w = Some clientIdentity"
      and "base64Decode E (ed25519PublicKey pinnedIdentity) = Inr desktopKey"
      and "get_prop resp ''signatureB64'' = Inr sigB64"
      and "base64Decode E sigB64 = Inr signature"
      and "verifyEd25519Signature E
             (handshake_transcript hostBytes (own_ephemeral_public E w) (publicKey clientIdentity))
             signature desktopKey"
      and "x25519_getSharedSecret E (own_ephemeral_private E w) hostBytes = Inr sharedSecret"
      and "beginHandshake E C w = (result, w')"
  shows "result = HsOk (opt_prop resp ''sessionId'') \<and>
         session w' = Some
           \<lparr>sid = opt_prop resp ''sessionId'',
            skey = session_key_spec E sharedSecret
                     (handshake_transcript hostBytes (own_ephemeral_public E w)
                        (publicKey clientIdentity)),
            seq = 0,
            hostEphemeralPubB64 = hostB64\<rparr>"
proof -
  have sidv: "get_prop resp ''sessionId'' = Inr (opt_prop resp ''sessionId'')"
    using assms(3) by (rule get_prop_defined)
  have "beginHandshake_try E C w =
          (Inr (HsOk (opt_prop resp ''sessionId'')),
           (log_event StoreSession (log_event CallVerify (begin_sent E w)))
             \<lparr>session := Some
                \<lparr>sid = opt_prop resp ''sessionId'',
                 skey = take 32 (sha256 E (sharedSecret @ hostBytes @
                          own_ephemeral_public E w @ publicKey clientIdentity)),
                 seq = 0,
                 hostEphemeralPubB64 = hostB64\<rparr>\<rparr>)"
    using beginHandshake_try_verified [OF assms(1-8), of C] assms(9,10) sidv
    by (simp add: handshake_transcript_def own_ephemeral_private_def)
  then show ?thesis
    using assms(11)
    by (auto simp add: beginHandshake_def session_key_spec_def handshake_transcript_def)
qed

theorem beginHandshake_session_key_witness:
  "fst (beginHandshake (E0 host_ok) C0 (paired0 ''sig'')) = HsOk (JStr ''session-1'') \<and>
   session (snd (beginHandshake (E0 host_ok) C0 (paired0 ''sig''))) = Some
     \<lparr>sid = JStr ''session-1'',
      skey = session_key_spec (E0 host_ok)
               (own_ephemeral_private (E0 host_ok) (paired0 ''sig'') @
                bytes_of ''0123456789abcdef0123456789abcdef'')
               (handshake_transcript (bytes_of ''0123456789abcdef0123456789abcdef'')
                  (own_ephemeral_public (E0 host_ok) (paired0 ''sig'')) [1, 2, 3]),
      seq = 0,
      hostEphemeralPubB64 = JStr ''0123456789abcdef0123456789abcdef''\<rparr>"
proof -
  let ?w = "paired0 ''sig''"
  let ?E = "E0 host_ok"
  let ?host = "bytes_of ''0123456789abcdef0123456789abcdef''"
  have h1: "host ?E (trace ?w) ''nmBeginHandshake'' (begin_params ?E ?w) = Inr begin_response"
    by simp
  have h2: "getPinnedIdentity ?w
              = Some \<lparr>fingerprint = JStr ''ff00aa11'', ed25519PublicKey = JStr ''sig'',
                       x25519PublicKey = JStr ''xpk''\<rparr>"
    by (simp add: getPinnedIdentity_paired0)
  have h3: "get_prop begin_response ''hostEphemeralPubB64''
              = Inr (JStr ''0123456789abcdef0123456789abcdef'')"
    by simp
  have h4: "base64Decode ?E (JStr ''0123456789abcdef0123456789abcdef'') = Inr ?host"
    by simp
  have h5: "inMemoryKeypair ?w = Some client0"
    by simp
  have h6: "base64Decode ?E (ed25519PublicKey \<lparr>fingerprint = JStr ''ff00aa11'',
              ed25519PublicKey = JStr ''sig'', x25519PublicKey = JStr ''xpk''\<rparr>)
              = Inr (bytes_of ''sig'')"
    by simp
  have h7: "get_prop begin_response ''signatureB64'' = Inr (JStr ''sig'')"
    by simp
  have h8: "base64Decode ?E (JStr ''sig'') = Inr (bytes_of ''sig'')"
    by simp
  have h9: "verifyEd25519Signature ?E
              (handshake_transcript ?host (own_ephemeral_public ?E ?w) (publicKey client0))
              (bytes_of ''sig'') (bytes_of ''sig'')"
    by (simp add: verifyEd25519Signature_def E0_def)
  have h10: "x25519_getSharedSecret ?E (own_ephemeral_private ?E ?w) ?host
               = Inr (own_ephemeral_private ?E ?w @ ?host)"
    by (simp add: E0_def)
  show ?thesis
    using beginHandshake_session_key
            [OF h1 h2 h3 h4 h5 h6 h7 h8 h9 h10 surjective_pairing, of C0]
    by (simp add: client0_def)
qed

section \<open>Finishing a handshake\<close>

lemma getOrCreateClientIdentity_world:
  "getOrCreateClientIdentity E C w = (r, w1) \<Longrightarrow> w1 = w"
  by (auto simp add: getOrCreateClientIdentity_cases split: option.splits)

lemma finishHandshake_try_world_general:
  assumes "finishHandshake_try E C other1 other2 w = (r, w1)"
  shows "w1 = w \<or> w1 = other1 w \<or>
         (\<exists>params. w1 = other2 (log_event (SendRequest ''nmFinishHandshake'' params) (other1 w)))"
  using assms
  by (auto simp add: finishHandshake_try_def Let_def sendRequest_def
      getOrCreateClientIdentity_cases
      split: option.splits sum.splits if_splits prod.splits)

lemma finishHandshake_try_world:
  assumes "finishHandshake_try E C id id w = (r, w1)"
  shows "w1 = w \<or> (\<exists>params. w1 = log_event (SendRequest ''nmFinishHandshake'' params) w)"
  using finishHandshake_try_world_general [OF assms] by auto

lemma finishHandshake_finally_simps [simp]:
  "ephemeralKeyPair (finishHandshake_finally w) = None"
  "storage (finishHandshake_finally w) = storage w"
  "session (finishHandshake_finally w) = session w"
  "trace (finishHandshake_finally w) = trace w"
  "inMemoryKeypair (finishHandshake_finally w) = inMemoryKeypair w"
  "db_record (finishHandshake_finally w) = db_record w"
  by (simp_all add: finishHandshake_finally_def Let_def split: option.splits)

lemma finishHandshake_finally_zeroes:
  assumes "ephemeralKeyPair w = Some eph"
  shows "heap (finishHandshake_finally w) (eph_privateKey eph) = fill0 (heap w (eph_privateKey eph))"
    and "heap (finishHandshake_finally w) (eph_publicKey eph) = fill0 (heap w (eph_publicKey eph))"
  using assms by (simp_all add: finishHandshake_finally_def Let_def fill0_def)

lemma finishHandshake_finally_nothing_held:
  "ephemeralKeyPair w = None \<Longrightarrow> finishHandshake_finally w = w"
  by (simp add: finishHandshake_finally_def)

lemma finishHandshake_world_general:
  assumes "finishHandshake E C other1 other2 w = (res, w')"
  shows "w' = finishHandshake_finally w \<or> w' = finishHandshake_finally (other1 w) \<or>
         (\<exists>params. w' = finishHandshake_finally
            (other2 (log_event (SendRequest ''nmFinishHandshake'' params) (other1 w))))"
proof -
  obtain r w1 where t: "finishHandshake_try E C other1 other2 w = (r, w1)"
    by (cases "finishHandshake_try E C other1 other2 w")
  then have "w' = finishHandshake_finally w1"
    using assms by (auto simp add: finishHandshake_def split: sum.splits)
  then show ?thesis
    using finishHandshake_try_world_general [OF t] by auto
qed

lemma finishHandshake_world:
  assumes "finishHandshake E C id id w = (res, w')"
  shows "w' = finishHandshake_finally w \<or>
         (\<exists>params. w' = finishHandshake_finally (log_event (SendRequest ''nmFinishHandshake'' params) w))"
  using finishHandshake_world_general [OF assms] by auto

text \<open>
  When nothing that runs while \<^verbatim>\<open>finishHandshake\<close> is suspended touches the ephemeral key
  pair or the arrays, the \<^verbatim>\<open>finally\<close> block finds the pair that was held on entry:
  whatever the call returns, afterwards no ephemeral key pair is held and both arrays of
  the pair are overwritten with zeros, each over its whole length.
\<close>

lemma finishHandshake_wipes_when_undisturbed:
  assumes "finishHandshake E C other1 other2 w = (res, w')"
      and "\<And>v. ephemeralKeyPair (other1 v) = ephemeralKeyPair v \<and> heap (other1 v) = heap v"
      and "\<And>v. ephemeralKeyPair (other2 v) = ephemeralKeyPair v \<and> heap (other2 v) = heap v"
  shows "ephemeralKeyPair w' = None \<and>
         (\<forall>eph. ephemeralKeyPair w = Some eph \<longrightarrow>
            heap w' (eph_privateKey eph) = replicate (length (heap w (eph_privateKey eph))) 0 \<and>
            heap w' (eph_publicKey eph) = replicate (length (heap w (eph_publicKey eph))) 0)"
proof -
  from finishHandshake_world_general [OF assms(1)]
  obtain w1 where w1: "w' = finishHandshake_finally w1"
    and same: "ephemeralKeyPair w1 = ephemeralKeyPair w" "heap w1 = heap w"
    using assms(2,3) by auto
  show ?thesis
    using finishHandshake_finally_zeroes [of w1] same
    by (simp add: w1 fill0_def)
qed

lemma finishHandshake_try_sent_then:
  assumes "session w = Some s"
      and "truthy (sid s)"
      and "truthy (hostEphemeralPubB64 s)"
      and "ephemeralKeyPair w = Some eph"
      and "base64Decode E (hostEphemeralPubB64 s) = Inr hostBytes"
      and "length hostBytes = 32"
      and "inMemoryKeypair w = Some clientIdentity"
      and "ed25519_sign E
             (text_encode E (CLIENT_FINISH C) @ text_encode E (to_string (sid s)) @ hostBytes @
              heap w (eph_publicKey eph) @ publicKey clientIdentity)
             (privateKey clientIdentity) = Inr clientSignature"
  shows "finishHandshake_try E C id other2 w =
           (fst (sendRequest E ''nmFinishHandshake''
             (JObj [(''sessionId'', sid s),
                    (''clientSigB64'', JStr (base64Encode E clientSignature))]) w),
            other2 (snd (sendRequest E ''nmFinishHandshake''
             (JObj [(''sessionId'', sid s),
                    (''clientSigB64'', JStr (base64Encode E clientSignature))]) w)))"
  using assms
  by (simp add: finishHandshake_try_def Let_def getOrCreateClientIdentity_cases
      concatUint8Arrays_concat split: prod.splits)

lemma finishHandshake_try_sent:
  assumes "session w = Some s"
      and "truthy (sid s)"
      and "truthy (hostEphemeralPubB64 s)"
      and "ephemeralKeyPair w = Some eph"
      and "base64Decode E (hostEphemeralPubB64 s) = Inr hostBytes"
      and "length hostBytes = 32"
      and "inMemoryKeypair w = Some clientIdentity"
      and "ed25519_sign E
             (text_encode E (CLIENT_FINISH C) @ text_encode E (to_string (sid s)) @ hostBytes @
              heap w (eph_publicKey eph) @ publicKey clientIdentity)
             (privateKey clientIdentity) = Inr clientSignature"
  shows "finishHandshake_try E C id id w =
           sendRequest E ''nmFinishHandshake''
             (JObj [(''sessionId'', sid s),
                    (''clientSigB64'', JStr (base64Encode E clientSignature))]) w"
  using finishHandshake_try_sent_then [OF assms, of id] by simp

lemma beginHandshake_paired0:
  "beginHandshake (E0 host_ok) C0 (paired0 ''sig'') =
     (HsOk (JStr ''session-1''),
     (log_event StoreSession (log_event CallVerify (begin_sent (E0 host_ok) (paired0 ''sig''))))
       \<lparr>session := Some
          \<lparr>sid = JStr ''session-1'',
           skey = take 32 (sha256 (E0 host_ok)
                    ((random_bytes (E0 host_ok) 0 32 @
                      bytes_of ''0123456789abcdef0123456789abcdef'') @
                     bytes_of ''0123456789abcdef0123456789abcdef'' @
                     own_ephemeral_public (E0 host_ok) (paired0 ''sig'') @ publicKey client0)),
           seq = 0,
           hostEphemeralPubB64 = JStr ''0123456789abcdef0123456789abcdef''\<rparr>\<rparr>)"
proof -
  let ?w = "paired0 ''sig''"
  let ?E = "E0 host_ok"
  let ?host = "bytes_of ''0123456789abcdef0123456789abcdef''"
  have h1: "host ?E (trace ?w) ''nmBeginHandshake'' (begin_params ?E ?w) = Inr begin_response"
    by simp
  have h2: "getPinnedIdentity ?w
              = Some \<lparr>fingerprint = JStr ''ff00aa11'', ed25519PublicKey = JStr ''sig'',
                       x25519PublicKey = JStr ''xpk''\<rparr>"
    by (simp add: getPinnedIdentity_paired0)
  have h3: "get_prop begin_response ''hostEphemeralPubB64''
              = Inr (JStr ''0123456789abcdef0123456789abcdef'')"
    by simp
  have h4: "base64Decode ?E (JStr ''0123456789abcdef0123456789abcdef'') = Inr ?host"
    by simp
  have h5: "inMemoryKeypair ?w = Some client0"
    by simp
  have h6: "base64Decode ?E (ed25519PublicKey \<lparr>fingerprint = JStr ''ff00aa11'',
              ed25519PublicKey = JStr ''sig'', x25519PublicKey = JStr ''xpk''\<rparr>)
              = Inr (bytes_of ''sig'')"
    by simp
  have h7: "get_prop begin_response ''signatureB64'' = Inr (JStr ''sig'')"
    by simp
  have h8: "base64Decode ?E (JStr ''sig'') = Inr (bytes_of ''sig'')"
    by simp
  have h9: "verifyEd25519Signature ?E (?host @ own_ephemeral_public ?E ?w @ publicKey client0)
              (bytes_of ''sig'') (bytes_of ''sig'')"
    by (simp add: verifyEd25519Signature_def E0_def)
  have h10: "x25519_getSharedSecret ?E (random_bytes ?E (draws ?w) 32) ?host
               = Inr (random_bytes ?E (draws ?w) 32 @ ?host)"
    by (simp add: E0_def)
  have sidv: "get_prop begin_response ''sessionId'' = Inr (JStr ''session-1'')"
    by (simp add: begin_response_def)
  show ?thesis
    using beginHandshake_try_verified [OF h1 h2 h3 h4 h5 h6 h7 h8, of C0] h9 h10 sidv
    by (simp add: beginHandshake_def)
qed

lemma handshaking0_eq:
  "handshaking0 =
     (log_event StoreSession (log_event CallVerify (begin_sent (E0 host_ok) (paired0 ''sig''))))
       \<lparr>session := Some
          \<lparr>sid = JStr ''session-1'',
           skey = take 32 (sha256 (E0 host_ok)
                    ((random_bytes (E0 host_ok) 0 32 @
                      bytes_of ''0123456789abcdef0123456789abcdef'') @
                     bytes_of ''0123456789abcdef0123456789abcdef'' @
                     own_ephemeral_public (E0 host_ok) (paired0 ''sig'') @ publicKey client0)),
           seq = 0,
           hostEphemeralPubB64 = JStr ''0123456789abcdef0123456789abcdef''\<rparr>\<rparr>"
  by (simp add: handshaking0_def beginHandshake_paired0)

lemma handshaking0_fields [simp]:
  "ephemeralKeyPair handshaking0 = Some \<lparr>eph_privateKey = 0, eph_publicKey = 1\<rparr>"
  "heap handshaking0 0 = replicate 32 17"
  "heap handshaking0 (Suc 0) = replicate 32 18"
  "storage handshaking0 = storage (paired0 ''sig'')"
  "inMemoryKeypair handshaking0 = Some client0"
  using begin_sent_simps(9,10) [of "E0 host_ok" "paired0 ''sig''"]
  by (simp_all add: handshaking0_eq own_ephemeral_public_def E0_def)

lemma session_handshaking0:
  "session handshaking0 = Some
     \<lparr>sid = JStr ''session-1'',
      skey = take 32 (sha256 (E0 host_ok)
               ((random_bytes (E0 host_ok) 0 32 @
                 bytes_of ''0123456789abcdef0123456789abcdef'') @
                bytes_of ''0123456789abcdef0123456789abcdef'' @
                own_ephemeral_public (E0 host_ok) (paired0 ''sig'') @ publicKey client0)),
      seq = 0,
      hostEphemeralPubB64 = JStr ''0123456789abcdef0123456789abcdef''\<rparr>"
  by (simp add: handshaking0_eq)


lemma finishHandshake_try_handshaking0:
  "finishHandshake_try (E0 host_ok) C0 id other2 handshaking0 =
     (Inr (JObj [(''ok'', JBool True)]),
      other2 (log_event (SendRequest ''nmFinishHandshake''
        (JObj [(''sessionId'', JStr ''session-1''),
               (''clientSigB64'', JStr (base64Encode (E0 host_ok) (privateKey client0)))]))
        handshaking0))"
proof -
  let ?E = "E0 host_ok"
  have d: "base64Decode ?E (JStr ''0123456789abcdef0123456789abcdef'')
             = Inr (bytes_of ''0123456789abcdef0123456789abcdef'')"
    by simp
  have l: "length (bytes_of ''0123456789abcdef0123456789abcdef'') = 32"
    by (simp add: bytes_of_def)
  have sg: "ed25519_sign ?E msg (privateKey client0) = Inr (privateKey client0)" for msg
    by (simp add: E0_def)
  show ?thesis
    using finishHandshake_try_sent_then
            [OF session_handshaking0 _ _ handshaking0_fields(1) _ l handshaking0_fields(5) sg,
             of C0 other2] d
    by (simp add: sendRequest_def host_ok_def)
qed

text \<open>Left alone, the handshake of the example wipes both arrays.\<close>

lemma finishHandshake_handshaking0_undisturbed:
  "ephemeralKeyPair (snd (finishHandshake (E0 host_ok) C0 id id handshaking0)) = None \<and>
   heap (snd (finishHandshake (E0 host_ok) C0 id id handshaking0)) 0 = replicate 32 0 \<and>
   heap (snd (finishHandshake (E0 host_ok) C0 id id handshaking0)) 1 = replicate 32 0"
  using finishHandshake_wipes_when_undisturbed
          [OF surjective_pairing, of id id "E0 host_ok" C0 handshaking0]
  by simp

text \<open>
  C6: the code at an input where the claim fails. \<^verbatim>\<open>finishHandshake\<close> is called on the state
  a successful \<^verbatim>\<open>beginHandshake\<close> leaves, holding an ephemeral key pair in two arrays of 32
  non-zero bytes. While the call awaits the desktop's answer to \<^verbatim>\<open>nmFinishHandshake\<close>,
  \<^verbatim>\<open>clearSession('DesktopNotPaired')\<close> runs, as \<^verbatim>\<open>getBlockingState\<close> calls it outside the
  handshake lock. It drops the pair from the instance without overwriting it, so the
  \<^verbatim>\<open>finally\<close> block finds no pair and wipes nothing: \<^verbatim>\<open>finishHandshake\<close> returns the
  desktop's answer, no pair is held, and both arrays still hold the key bytes.
\<close>

theorem finishHandshake_interrupted_keeps_key_bytes:
  "ephemeralKeyPair handshaking0 = Some \<lparr>eph_privateKey = 0, eph_publicKey = 1\<rparr> \<and>
   heap handshaking0 0 = replicate 32 17 \<and>
   heap handshaking0 1 = replicate 32 18 \<and>
   fst (finishHandshake (E0 host_ok) C0 id (clearSession (E0 host_ok) ''DesktopNotPaired'')
          handshaking0) = JObj [(''ok'', JBool True)] \<and>
   ephemeralKeyPair (snd (finishHandshake (E0 host_ok) C0 id
          (clearSession (E0 host_ok) ''DesktopNotPaired'') handshaking0)) = None \<and>
   heap (snd (finishHandshake (E0 host_ok) C0 id
          (clearSession (E0 host_ok) ''DesktopNotPaired'') handshaking0)) 0 = replicate 32 17 \<and>
   heap (snd (finishHandshake (E0 host_ok) C0 id
          (clearSession (E0 host_ok) ''DesktopNotPaired'') handshaking0)) 1 = replicate 32 18"
  by (simp add: finishHandshake_def finishHandshake_try_handshaking0
      finishHandshake_finally_nothing_held)

section \<open>Traces of the handshake\<close>

lemma beginHandshake_try_outcome:
  assumes "beginHandshake_try E C w = (r, w')"
  shows "((\<exists>e. r = Inl e) \<and>
          (w' = begin_sent E w \<or> w' = log_event CallVerify (begin_sent E w)))
       \<or> ((\<exists>e. r = Inr (HsFail e)) \<and>
          (w' = clearSession E (NOT_PAIRED C) (begin_sent E w) \<or>
           w' = log_event CallVerify (begin_sent E w)))
       \<or> (\<exists>sidv k hb. r = Inr (HsOk sidv) \<and>
            w' = (log_event StoreSession (log_event CallVerify (begin_sent E w)))
                   \<lparr>session := Some \<lparr>sid = sidv, skey = k, seq = 0, hostEphemeralPubB64 = hb\<rparr>\<rparr>)"
  using assms
  by (auto simp add: beginHandshake_try_def generateX25519KeyPair_def Let_def begin_request_sent
      getOrCreateClientIdentity_cases
      split: sum.splits option.splits prod.splits if_splits)

lemma beginHandshake_outcome:
  assumes "beginHandshake E C w = (hr, w')"
  shows "((\<exists>e. hr = HsFail e) \<and>
          (w' = begin_sent E w \<or> w' = log_event CallVerify (begin_sent E w) \<or>
           w' = clearSession E (NOT_PAIRED C) (begin_sent E w)))
       \<or> (\<exists>sidv k hb. hr = HsOk sidv \<and>
            w' = (log_event StoreSession (log_event CallVerify (begin_sent E w)))
                   \<lparr>session := Some \<lparr>sid = sidv, skey = k, seq = 0, hostEphemeralPubB64 = hb\<rparr>\<rparr>)"
proof -
  obtain r w1 where t: "beginHandshake_try E C w = (r, w1)"
    by (cases "beginHandshake_try E C w")
  show ?thesis
    using beginHandshake_try_outcome [OF t] assms
    by (auto simp add: beginHandshake_def t split: sum.splits if_splits)
qed


lemma count_event_simps [simp]:
  "count_event e [] = 0"
  "count_event e (x # xs) = (if x = e then 1 else 0) + count_event e xs"
  "count_event e (xs @ ys) = count_event e xs + count_event e ys"
  by (simp_all add: count_event_def)

lemma notifications_append [simp]:
  "notifications (xs @ ys) = notifications xs @ notifications ys"
  by (induction xs rule: notifications.induct) simp_all

lemma handshake_events_simps [simp]:
  "handshake_events []"
  "handshake_events (SendRequest c p # evs) = handshake_events evs"
  "handshake_events (PairingRequired reason # evs) = handshake_events evs"
  "handshake_events (CallVerify # evs) = handshake_events evs"
  "handshake_events (StoreSession # evs) = handshake_events evs"
  "handshake_events (xs @ ys) = (handshake_events xs \<and> handshake_events ys)"
  by (auto simp add: handshake_events_def)

lemma ensureClientKeypairUnlocked_no_password:
  "ensureClientKeypairUnlocked E C None w = (r, w1) \<Longrightarrow> w1 = w"
  by (auto simp add: ensureClientKeypairUnlocked_def split: option.splits if_splits)

lemma beginHandshake_effect:
  assumes "beginHandshake E C w = (hr, w2)"
  shows "\<exists>evs. trace w2 = trace w @ evs \<and> handshake_events evs \<and>
           (\<forall>sidv. hr = HsOk sidv \<longrightarrow>
              storage w2 = storage w \<and> notifications evs = [] \<and>
              inMemoryKeypair w2 = inMemoryKeypair w)"
  using beginHandshake_outcome [OF assms] by auto

lemma finishHandshake_effect:
  assumes "finishHandshake E C id id w = (res, w3)"
  shows "\<exists>evs. trace w3 = trace w @ evs \<and> handshake_events evs \<and>
           storage w3 = storage w \<and> notifications evs = [] \<and>
           inMemoryKeypair w3 = inMemoryKeypair w"
  using finishHandshake_world [OF assms] by auto

lemma finish_failed_effect:
  assumes "finish_failed E C finish w = (r, w')"
  shows "(\<exists>e. r = Inl e) \<and> (\<exists>evs. trace w' = trace w @ evs \<and> handshake_events evs)"
  using assms
  by (auto simp add: finish_failed_def Let_def split: if_splits jsval.splits)

lemma performHandshake_effect:
  assumes "performHandshake E C w = (r, w')"
  shows "\<exists>evs. trace w' = trace w @ evs \<and> handshake_events evs \<and>
           (r = Inr () \<longrightarrow> storage w' = storage w \<and> notifications evs = [] \<and>
              inMemoryKeypair w' = inMemoryKeypair w)"
proof (cases "isPaired w")
  case False
  then have "w' = clearSession E (NOT_PAIRED C) w" and "r = Inl (NOT_PAIRED C)"
    using assms by (simp_all add: performHandshake_def)
  then show ?thesis by simp
next
  case True
  obtain kr w1 where k: "ensureClientKeypairUnlocked E C None w = (kr, w1)"
    by (cases "ensureClientKeypairUnlocked E C None w")
  then have w1: "w1 = w"
    by (rule ensureClientKeypairUnlocked_no_password)
  obtain hr w2 where b: "beginHandshake E C w = (hr, w2)"
    by (cases "beginHandshake E C w")
  obtain finish w3 where f: "finishHandshake E C id id w2 = (finish, w3)"
    by (cases "finishHandshake E C id id w2")
  obtain fr w4 where ff: "finish_failed E C finish w3 = (fr, w4)"
    by (cases "finish_failed E C finish w3")
  from beginHandshake_effect [OF b] obtain evs2 where
    e2: "trace w2 = trace w @ evs2" "handshake_events evs2"
        "\<forall>sidv. hr = HsOk sidv \<longrightarrow> storage w2 = storage w \<and> notifications evs2 = [] \<and>
             inMemoryKeypair w2 = inMemoryKeypair w"
    by blast
  from finishHandshake_effect [OF f] obtain evs3 where
    e3: "trace w3 = trace w2 @ evs3" "handshake_events evs3" "storage w3 = storage w2"
        "notifications evs3 = []" "inMemoryKeypair w3 = inMemoryKeypair w2"
    by blast
  from finish_failed_effect [OF ff] obtain evs4 where
    e4: "\<exists>e. fr = Inl e" "trace w4 = trace w3 @ evs4" "handshake_events evs4"
    by blast
  show ?thesis
    using assms True e2 e3 e4
    by (auto simp add: performHandshake_def k w1 b f ff Let_def
        split: option.splits sum.splits hs_result.splits if_splits)
qed

lemma ensureSession_effect:
  assumes "ensureSession E C w = (r, w')"
  shows "\<exists>evs. trace w' = trace w @ CallEnsureSession # evs \<and> handshake_events evs \<and>
           (r = Inr () \<longrightarrow> storage w' = storage w \<and> notifications evs = [] \<and>
              inMemoryKeypair w' = inMemoryKeypair w)"
proof (cases "hasActiveSession (log_event CallEnsureSession w)")
  case True
  then show ?thesis
    using assms by (auto simp add: ensureSession_def Let_def)
next
  case False
  then have "performHandshake E C (log_event CallEnsureSession w) = (r, w')"
    using assms by (simp add: ensureSession_def Let_def)
  from performHandshake_effect [OF this] show ?thesis
    by auto
qed

section \<open>Secure requests on a session\<close>

lemma js_increment_below: "n < 9007199254740992 \<Longrightarrow> js_increment n = n + 1"
  by (simp add: js_increment_def)

lemma js_increment_stuck: "js_increment 9007199254740992 = 9007199254740992"
  by (simp add: js_increment_def)

lemma attempt_no_session:
  "session w = None \<Longrightarrow>
     attempt E C m p w = (Inl (cannot_read ''undefined'' ''seq''), log_event CallAttempt w)"
  by (simp add: attempt_def Let_def)

lemma attempt_on_session_double:
  assumes "session w = Some s" and "attempt E C m p w = (r, w')"
  shows "session w' = Some (s\<lparr>seq := js_increment (seq s)\<rparr>) \<and>
         storage w' = storage w \<and>
         inMemoryKeypair w' = inMemoryKeypair w \<and>
         (\<exists>ps. trace w' = trace w @ [CallAttempt, SendRequest ''nmSecureRequest'' ps] \<and>
               opt_prop ps ''seq'' = JNum (js_increment (seq s)))"
  using assms
  by (auto simp add: attempt_def Let_def generateNonce_def sendRequest_def log_event_def
      split: sum.splits option.splits prod.splits if_splits)

lemma attempt_on_session:
  assumes "session w = Some s" and "attempt E C m p w = (r, w')"
      and "seq s < 9007199254740992"
  shows "session w' = Some (s\<lparr>seq := seq s + 1\<rparr>) \<and>
         storage w' = storage w \<and>
         inMemoryKeypair w' = inMemoryKeypair w \<and>
         (\<exists>ps. trace w' = trace w @ [CallAttempt, SendRequest ''nmSecureRequest'' ps] \<and>
               opt_prop ps ''seq'' = JNum (seq s + 1))"
  using attempt_on_session_double [OF assms(1,2)] js_increment_below [OF assms(3)]
  by simp

lemma attempt_effect:
  assumes "attempt E C m p w = (r, w')"
  shows "\<exists>evs. trace w' = trace w @ CallAttempt # evs \<and> handshake_events evs \<and>
           storage w' = storage w \<and> notifications evs = []"
proof (cases "session w")
  case None
  then show ?thesis
    using assms by (auto simp add: attempt_no_session)
next
  case (Some s)
  from attempt_on_session_double [OF Some assms] show ?thesis
    by auto
qed

lemma retry_failed_eq:
  "retry_failed E C e re w =
     (Inl re, if is_identity_level C (if re \<noteq> [] then re else e)
              then clearSession E (if re \<noteq> [] then re else e) w else w)"
  by (simp add: retry_failed_def Let_def)

lemma secureRequest_retry_unfold:
  assumes "session w = Some s"
      and "attempt E C m p w = (Inl e, w1)"
      and "is_retryable C e"
      and "ensureSession E C (log_event DropSession (w1\<lparr>session := None\<rparr>)) = (er, w3)"
  shows "secureRequest E C m p w =
           (case er of
              Inl re \<Rightarrow> retry_failed E C e re w3
            | Inr u \<Rightarrow>
                (case attempt E C m p w3 of
                   (Inr result, w4) \<Rightarrow> (Inr result, w4)
                 | (Inl re, w4) \<Rightarrow> retry_failed E C e re w4))"
  using assms by (simp add: secureRequest_def Let_def split: sum.splits)

lemma secureRequest_on_session:
  assumes "session w = Some s" and "secureRequest E C m p w = (r, w')"
  shows "(\<exists>r1. attempt E C m p w = (r1, w'))
       \<or> (\<exists>r1 w1 evs. attempt E C m p w = (r1, w1) \<and>
             trace w' = trace w1 @ DropSession # CallEnsureSession # evs)"
proof -
  obtain r1 w1 where a: "attempt E C m p w = (r1, w1)"
    by (cases "attempt E C m p w")
  show ?thesis
  proof (cases "\<exists>e. r1 = Inl e \<and> is_retryable C e")
    case False
    then have "w' = w1"
      using assms a by (auto simp add: secureRequest_def split: sum.splits)
    then show ?thesis using a by simp
  next
    case True
    then obtain e where e: "r1 = Inl e" "is_retryable C e" by blast
    let ?w2 = "log_event DropSession (w1\<lparr>session := None\<rparr>)"
    obtain er w3 where en: "ensureSession E C ?w2 = (er, w3)"
      by (cases "ensureSession E C ?w2")
    obtain r4 w4 where a2: "attempt E C m p w3 = (r4, w4)"
      by (cases "attempt E C m p w3")
    from ensureSession_effect [OF en] obtain evs3 where
      t3: "trace w3 = trace ?w2 @ CallEnsureSession # evs3" by blast
    from attempt_effect [OF a2] obtain evs4 where
      t4: "trace w4 = trace w3 @ CallAttempt # evs4" by blast
    have "\<exists>evs. trace w' = trace w1 @ DropSession # CallEnsureSession # evs"
      using assms(2) t3 t4
      by (auto simp add: secureRequest_retry_unfold [OF assms(1) a [unfolded e(1)] e(2) en]
          a2 retry_failed_eq split: sum.splits)
    then show ?thesis using a by blast
  qed
qed

lemma secureRequest_trace:
  assumes "secureRequest E C m p w = (r, w')"
  shows "\<exists>evs. trace w' = trace w @ evs"
proof (cases "session w")
  case None
  then show ?thesis using assms by (simp add: secureRequest_def)
next
  case (Some s)
  from secureRequest_on_session [OF Some assms] show ?thesis
  proof
    assume "\<exists>r1. attempt E C m p w = (r1, w')"
    then obtain r1 where "attempt E C m p w = (r1, w')" by blast
    from attempt_effect [OF this] show ?thesis by blast
  next
    assume "\<exists>r1 w1 evs. attempt E C m p w = (r1, w1) \<and>
              trace w' = trace w1 @ DropSession # CallEnsureSession # evs"
    then obtain r1 w1 evs where a: "attempt E C m p w = (r1, w1)"
      and t: "trace w' = trace w1 @ DropSession # CallEnsureSession # evs" by blast
    from attempt_effect [OF a] obtain evs1 where "trace w1 = trace w @ CallAttempt # evs1"
      by blast
    then show ?thesis using t by simp
  qed
qed

lemma secureRequest_same_session:
  assumes "session w = Some s" and "secureRequest E C m p w = (r, w')"
      and "count_event CallEnsureSession (new_events w w') = 0"
      and "seq s < 9007199254740992"
  shows "session w' = Some (s\<lparr>seq := seq s + 1\<rparr>) \<and>
         (\<exists>ps. new_events w w' = [CallAttempt, SendRequest ''nmSecureRequest'' ps] \<and>
               opt_prop ps ''seq'' = JNum (seq s + 1))"
proof -
  from secureRequest_on_session [OF assms(1,2)] show ?thesis
  proof
    assume "\<exists>r1. attempt E C m p w = (r1, w')"
    then obtain r1 where "attempt E C m p w = (r1, w')" by blast
    from attempt_on_session [OF assms(1) this assms(4)] show ?thesis
      by auto
  next
    assume "\<exists>r1 w1 evs. attempt E C m p w = (r1, w1) \<and>
              trace w' = trace w1 @ DropSession # CallEnsureSession # evs"
    then obtain r1 w1 evs where a: "attempt E C m p w = (r1, w1)"
      and t: "trace w' = trace w1 @ DropSession # CallEnsureSession # evs" by blast
    from attempt_effect [OF a] obtain evs1 where "trace w1 = trace w @ CallAttempt # evs1"
      by blast
    then have "new_events w w' = (CallAttempt # evs1) @ DropSession # CallEnsureSession # evs"
      using t by simp
    then have "count_event CallEnsureSession (new_events w w') \<noteq> 0"
      by simp
    then show ?thesis using assms(3) by simp
  qed
qed

lemma sent_seqs_append [simp]: "sent_seqs (xs @ ys) = sent_seqs xs @ sent_seqs ys"
  by (induction xs rule: sent_seqs.induct) simp_all

lemma new_events_trans:
  assumes "trace w1 = trace w @ evs1" and "trace w2 = trace w1 @ evs2"
  shows "new_events w w2 = new_events w w1 @ new_events w1 w2"
  using assms by (simp add: new_events_def)

lemma secureRequests_trace:
  "secureRequests E C calls w = (rs, w') \<Longrightarrow> \<exists>evs. trace w' = trace w @ evs"
proof (induction calls arbitrary: w rs w')
  case Nil
  then show ?case by simp
next
  case (Cons call calls)
  obtain m p where call: "call = (m, p)" by (cases call)
  obtain r w1 where s1: "secureRequest E C m p w = (r, w1)"
    by (cases "secureRequest E C m p w")
  obtain rs' w2 where s2: "secureRequests E C calls w1 = (rs', w2)"
    by (cases "secureRequests E C calls w1")
  have "w' = w2"
    using Cons.prems by (simp add: call s1 s2)
  moreover from secureRequest_trace [OF s1] obtain evs1 where "trace w1 = trace w @ evs1"
    by blast
  moreover from Cons.IH [OF s2] obtain evs2 where "trace w2 = trace w1 @ evs2"
    by blast
  ultimately show ?case by simp
qed

lemma secureRequests_same_session:
  assumes "session w = Some s"
      and "secureRequests E C calls w = (rs, w')"
      and "count_event CallEnsureSession (new_events w w') = 0"
      and "seq s + length calls \<le> 9007199254740992"
  shows "sent_seqs (new_events w w') = map JNum [seq s + 1 ..< seq s + 1 + length calls] \<and>
         session w' = Some (s\<lparr>seq := seq s + length calls\<rparr>)"
  using assms
proof (induction calls arbitrary: w s rs w')
  case Nil
  then show ?case by (simp add: new_events_def)
next
  case (Cons call calls)
  obtain m p where call: "call = (m, p)" by (cases call)
  obtain r w1 where s1: "secureRequest E C m p w = (r, w1)"
    by (cases "secureRequest E C m p w")
  obtain rs' w2 where s2: "secureRequests E C calls w1 = (rs', w2)"
    by (cases "secureRequests E C calls w1")
  have w': "w' = w2"
    using Cons.prems(2) by (simp add: call s1 s2)
  from secureRequest_trace [OF s1] obtain evs1 where t1: "trace w1 = trace w @ evs1"
    by blast
  from secureRequests_trace [OF s2] obtain evs2 where t2: "trace w2 = trace w1 @ evs2"
    by blast
  have split: "new_events w w2 = new_events w w1 @ new_events w1 w2"
    using t1 t2 by (rule new_events_trans)
  then have c1: "count_event CallEnsureSession (new_events w w1) = 0"
    and c2: "count_event CallEnsureSession (new_events w1 w2) = 0"
    using Cons.prems(3) by (simp_all add: w')
  have b1: "seq s < 9007199254740992"
    using Cons.prems(4) by simp
  from secureRequest_same_session [OF Cons.prems(1) s1 c1 b1]
  obtain ps where first: "session w1 = Some (s\<lparr>seq := seq s + 1\<rparr>)"
    "new_events w w1 = [CallAttempt, SendRequest ''nmSecureRequest'' ps]"
    "opt_prop ps ''seq'' = JNum (seq s + 1)"
    by blast
  have b2: "seq (s\<lparr>seq := seq s + 1\<rparr>) + length calls \<le> 9007199254740992"
    using Cons.prems(4) by simp
  from Cons.IH [OF first(1) s2 c2 b2]
  have rest: "sent_seqs (new_events w1 w2)
                = map JNum [seq s + 2 ..< seq s + 2 + length calls]"
    "session w2 = Some (s\<lparr>seq := seq s + 1 + length calls\<rparr>)"
    by simp_all
  have "seq s + 1 < seq s + 1 + length (call # calls)"
    by simp
  then have "[seq s + 1 ..< seq s + 1 + length (call # calls)]
          = (seq s + 1) # [Suc (seq s + 1) ..< seq s + 1 + length (call # calls)]"
    by (rule upt_conv_Cons)
  moreover have "Suc (seq s + 1) = seq s + 2"
    and "seq s + 1 + length (call # calls) = seq s + 2 + length calls"
    by simp_all
  ultimately have "[seq s + 1 ..< seq s + 1 + length (call # calls)]
          = (seq s + 1) # [seq s + 2 ..< seq s + 2 + length calls]"
    by simp
  then show ?case
    using first rest by (simp add: w' split)
qed

lemma beginHandshake_ok_seq:
  assumes "beginHandshake E C w0 = (HsOk sidv, w)"
  shows "\<exists>s. session w = Some s \<and> seq s = 0"
  using beginHandshake_outcome [OF assms] by auto

subsection \<open>Numbering within a session's lifetime\<close>

lemma numbered_append:
  "numbered n (xs @ ys) = (numbered n xs \<and> numbered (counter_after n xs) ys)"
  by (induction n xs rule: numbered.induct) simp_all

lemma counter_after_append:
  "counter_after n (xs @ ys) = counter_after (counter_after n xs) ys"
  by (induction n xs rule: counter_after.induct) simp_all

lemma quiet_numbered:
  "sent_seqs evs = [] \<Longrightarrow> numbered n evs"
  by (induction n evs rule: numbered.induct) (simp_all split: if_splits)

lemma quiet_counter:
  "sent_seqs evs = [] \<Longrightarrow> counter_after n evs = (if StoreSession \<in> set evs then 0 else n)"
  by (induction n evs rule: counter_after.induct) (simp_all split: if_splits)

lemma lifetimes_not_Nil [simp]: "lifetimes evs \<noteq> []"
  by (induction evs rule: lifetimes.induct) (simp_all split: list.splits)

lemma numbered_lifetimes:
  "numbered n evs \<Longrightarrow>
     (\<exists>k. sent_seqs (hd (lifetimes evs)) = map JNum [n + 1 ..< n + 1 + k]) \<and>
     (\<forall>l \<in> set (tl (lifetimes evs)). \<exists>k. sent_seqs l = map JNum [1 ..< 1 + k])"
proof (induction n evs rule: numbered.induct)
  case (1 n)
  have "\<exists>k. [] = map JNum [n + 1 ..< n + 1 + k]"
    by (rule exI [of _ 0]) simp
  then show ?case by simp
next
  case (2 n es)
  then have ih: "(\<exists>k. sent_seqs (hd (lifetimes es)) = map JNum [1 ..< 1 + k]) \<and>
     (\<forall>l \<in> set (tl (lifetimes es)). \<exists>k. sent_seqs l = map JNum [1 ..< 1 + k])"
    by simp
  obtain l ls where l: "lifetimes es = l # ls"
    by (cases "lifetimes es") simp_all
  have "\<exists>k. [] = map JNum [n + 1 ..< n + 1 + k]"
    by (rule exI [of _ 0]) simp
  then show ?case
    using ih by (simp add: l)
next
  case (3 n command params es)
  obtain l ls where l: "lifetimes es = l # ls"
    by (cases "lifetimes es") simp_all
  show ?case
  proof (cases "command = ''nmSecureRequest''")
    case True
    with 3 obtain k where k: "sent_seqs l = map JNum [n + 2 ..< n + 2 + k]"
      and rest: "\<forall>l \<in> set ls. \<exists>k. sent_seqs l = map JNum [1 ..< 1 + k]"
      and here: "opt_prop params ''seq'' = JNum (n + 1)"
      by (auto simp add: l)
    have "[n + 1 ..< n + 1 + Suc k] = (n + 1) # [n + 2 ..< n + 2 + k]"
      by (simp add: upt_conv_Cons)
    then have "sent_seqs (SendRequest command params # l) = map JNum [n + 1 ..< n + 1 + Suc k]"
      using True k here by simp
    then have "\<exists>k. sent_seqs (SendRequest command params # l) = map JNum [n + 1 ..< n + 1 + k]"
      by (rule exI)
    then show ?thesis
      using rest by (simp add: l)
  next
    case False
    with 3 show ?thesis by (simp add: l)
  qed
qed (auto split: list.splits simp del: upt_Suc)

lemma distinct_map_JNum: "distinct (map JNum xs) = distinct xs"
  by (simp add: distinct_map inj_on_def)

lemma numbered_lifetimes_distinct:
  assumes "numbered n evs" and "l \<in> set (lifetimes evs)"
  shows "distinct (sent_seqs l)"
proof -
  have "l = hd (lifetimes evs) \<or> l \<in> set (tl (lifetimes evs))"
    using assms(2) by (cases "lifetimes evs") auto
  then obtain i k where "sent_seqs l = map JNum [i ..< i + k]"
    using numbered_lifetimes [OF assms(1)] by blast
  then show ?thesis
    by (simp add: distinct_map_JNum)
qed

lemma tracks_simps [simp]:
  "session w = None \<Longrightarrow> tracks n w"
  "session w = Some s \<Longrightarrow> tracks n w = (seq s = n)"
  by (simp_all add: tracks_def)

lemma quiet_step_refl: "quiet_step w [] w"
  by (simp add: quiet_step_def)

lemma quiet_step_trans:
  assumes "quiet_step w xs w1" and "quiet_step w1 ys w2"
  shows "quiet_step w (xs @ ys) w2"
  using assms by (auto simp add: quiet_step_def tracks_def split: if_splits option.splits)

lemma quiet_step_counted:
  assumes "quiet_step w evs w'" and "tracks n w"
  shows "counted_step n w evs w'"
  using assms
  by (auto simp add: quiet_step_def counted_step_def quiet_numbered quiet_counter tracks_def
      split: if_splits option.splits)

lemma counted_step_trans:
  assumes "counted_step n w xs w1" and "counted_step (counter_after n xs) w1 ys w2"
  shows "counted_step n w (xs @ ys) w2"
  using assms by (simp add: counted_step_def numbered_append counter_after_append)

lemma beginHandshake_quiet:
  assumes "beginHandshake E C w = (hr, w')"
  shows "\<exists>evs. quiet_step w evs w'"
proof -
  from beginHandshake_outcome [OF assms]
  consider "w' = begin_sent E w" | "w' = log_event CallVerify (begin_sent E w)"
    | "w' = clearSession E (NOT_PAIRED C) (begin_sent E w)"
    | sidv k hb where "w' = (log_event StoreSession (log_event CallVerify (begin_sent E w)))
                   \<lparr>session := Some \<lparr>sid = sidv, skey = k, seq = 0, hostEphemeralPubB64 = hb\<rparr>\<rparr>"
    by blast
  then show ?thesis
  proof cases
    case 1
    then have "quiet_step w [SendRequest ''nmBeginHandshake'' (begin_params E w)] w'"
      by (simp add: quiet_step_def)
    then show ?thesis ..
  next
    case 2
    then have "quiet_step w [SendRequest ''nmBeginHandshake'' (begin_params E w), CallVerify] w'"
      by (simp add: quiet_step_def)
    then show ?thesis ..
  next
    case 3
    then have "quiet_step w [SendRequest ''nmBeginHandshake'' (begin_params E w),
                 PairingRequired (NOT_PAIRED C)] w'"
      by (simp add: quiet_step_def)
    then show ?thesis ..
  next
    case 4
    then have "quiet_step w [SendRequest ''nmBeginHandshake'' (begin_params E w),
                 CallVerify, StoreSession] w'"
      by (simp add: quiet_step_def)
    then show ?thesis ..
  qed
qed

lemma finishHandshake_quiet:
  assumes "finishHandshake E C id id w = (res, w')"
  shows "\<exists>evs. quiet_step w evs w'"
proof -
  from finishHandshake_world [OF assms]
  consider "w' = finishHandshake_finally w"
    | params where "w' = finishHandshake_finally
                           (log_event (SendRequest ''nmFinishHandshake'' params) w)"
    by blast
  then show ?thesis
  proof cases
    case 1
    then have "quiet_step w [] w'"
      by (simp add: quiet_step_def)
    then show ?thesis ..
  next
    case 2
    then have "quiet_step w [SendRequest ''nmFinishHandshake'' params] w'"
      by (simp add: quiet_step_def)
    then show ?thesis ..
  qed
qed

lemma clearSession_quiet: "quiet_step w [PairingRequired reason] (clearSession E reason w)"
  by (simp add: quiet_step_def)

lemma finish_failed_quiet:
  assumes "finish_failed E C finish w = (r, w')"
  shows "\<exists>evs. quiet_step w evs w'"
proof -
  have "w' = w \<or> (\<exists>reason. w' = clearSession E reason w)"
    using assms by (auto simp add: finish_failed_def Let_def split: if_splits jsval.splits)
  then show ?thesis
    using quiet_step_refl [of w] clearSession_quiet [of w _ E] by blast
qed

lemma performHandshake_quiet:
  assumes "performHandshake E C w = (r, w')"
  shows "\<exists>evs. quiet_step w evs w'"
proof (cases "isPaired w")
  case False
  then have "w' = clearSession E (NOT_PAIRED C) w"
    using assms by (simp add: performHandshake_def)
  then show ?thesis
    using clearSession_quiet [of w "NOT_PAIRED C" E] by blast
next
  case True
  obtain kr w1 where k: "ensureClientKeypairUnlocked E C None w = (kr, w1)"
    by (cases "ensureClientKeypairUnlocked E C None w")
  then have w1: "w1 = w"
    by (rule ensureClientKeypairUnlocked_no_password)
  obtain hr w2 where b: "beginHandshake E C w = (hr, w2)"
    by (cases "beginHandshake E C w")
  obtain finish w3 where f: "finishHandshake E C id id w2 = (finish, w3)"
    by (cases "finishHandshake E C id id w2")
  obtain fr w4 where ff: "finish_failed E C finish w3 = (fr, w4)"
    by (cases "finish_failed E C finish w3")
  from beginHandshake_quiet [OF b] obtain evs2 where q2: "quiet_step w evs2 w2"
    by blast
  from finishHandshake_quiet [OF f] obtain evs3 where q3: "quiet_step w2 evs3 w3"
    by blast
  from finish_failed_quiet [OF ff] obtain evs4 where q4: "quiet_step w3 evs4 w4"
    by blast
  have "w' = w \<or> w' = w2 \<or> (\<exists>reason. w' = clearSession E reason w2) \<or> w' = w3 \<or> w' = w4"
    using assms True
    by (auto simp add: performHandshake_def k w1 b f ff Let_def
        split: option.splits sum.splits hs_result.splits if_splits)
  then show ?thesis
    using quiet_step_refl [of w] q2 quiet_step_trans [OF q2 clearSession_quiet]
      quiet_step_trans [OF q2 q3] quiet_step_trans [OF quiet_step_trans [OF q2 q3] q4]
    by blast
qed

lemma ensureSession_quiet:
  assumes "ensureSession E C w = (r, w')"
  shows "\<exists>evs. quiet_step w (CallEnsureSession # evs) w'"
proof -
  have q0: "quiet_step w [CallEnsureSession] (log_event CallEnsureSession w)"
    by (simp add: quiet_step_def)
  show ?thesis
  proof (cases "hasActiveSession (log_event CallEnsureSession w)")
    case True
    then have "w' = log_event CallEnsureSession w"
      using assms by (auto simp add: ensureSession_def Let_def)
    then show ?thesis using q0 by blast
  next
    case False
    then have "performHandshake E C (log_event CallEnsureSession w) = (r, w')"
      using assms by (simp add: ensureSession_def Let_def)
    from performHandshake_quiet [OF this] obtain evs where
      "quiet_step (log_event CallEnsureSession w) evs w'" by blast
    from quiet_step_trans [OF q0 this] show ?thesis by auto
  qed
qed

lemma counted_step_refl: "tracks n w \<Longrightarrow> counted_step n w [] w"
  by (simp add: counted_step_def)

lemma clearSession_counted: "counted_step c w [PairingRequired reason] (clearSession E reason w)"
  by (simp add: counted_step_def)

lemma attempt_counted:
  assumes "attempt E C m p w = (r, w')"
      and "tracks n w"
      and "session w \<noteq> None \<longrightarrow> n < 9007199254740992"
  shows "\<exists>evs. counted_step n w evs w' \<and>
           counter_after n evs = (if session w = None then n else n + 1)"
proof (cases "session w")
  case None
  then have "w' = log_event CallAttempt w"
    using assms(1) by (simp add: attempt_no_session)
  then have "counted_step n w [CallAttempt] w' \<and> counter_after n [CallAttempt] = n"
    using None by (simp add: counted_step_def)
  then show ?thesis
    using None by auto
next
  case (Some s)
  then have n: "seq s = n" "seq s < 9007199254740992"
    using assms(2,3) by simp_all
  from attempt_on_session [OF Some assms(1) n(2)]
  obtain ps where s': "session w' = Some (s\<lparr>seq := seq s + 1\<rparr>)"
    and t: "trace w' = trace w @ [CallAttempt, SendRequest ''nmSecureRequest'' ps]"
    and q: "opt_prop ps ''seq'' = JNum (seq s + 1)"
    by blast
  have "counted_step n w [CallAttempt, SendRequest ''nmSecureRequest'' ps] w' \<and>
        counter_after n [CallAttempt, SendRequest ''nmSecureRequest'' ps] = n + 1"
    using s' t q n(1) by (simp add: counted_step_def)
  then show ?thesis
    using Some by auto
qed

lemma retry_failed_counted:
  assumes "retry_failed E C e re w = (r, w')" and "tracks c w"
  shows "\<exists>evs. counted_step c w evs w' \<and> counter_after c evs = c"
proof -
  have "w' = w \<or> (\<exists>msg. w' = clearSession E msg w)"
    using assms(1) by (auto simp add: retry_failed_eq split: if_splits)
  then show ?thesis
  proof
    assume "w' = w"
    then have "counted_step c w [] w' \<and> counter_after c [] = c"
      using assms(2) by (simp add: counted_step_refl)
    then show ?thesis by blast
  next
    assume "\<exists>msg. w' = clearSession E msg w"
    then obtain msg where "w' = clearSession E msg w" by blast
    then have "counted_step c w [PairingRequired msg] w' \<and>
               counter_after c [PairingRequired msg] = c"
      by (simp add: clearSession_counted)
    then show ?thesis by blast
  qed
qed

lemma secureRequest_counted:
  assumes "secureRequest E C m p w = (r, w')"
      and "tracks n w"
      and "n < 9007199254740992"
  shows "\<exists>evs. counted_step n w evs w' \<and> counter_after n evs \<le> n + 1"
proof (cases "session w")
  case None
  then have "w' = w"
    using assms(1) by (simp add: secureRequest_def)
  then have "counted_step n w [] w' \<and> counter_after n [] \<le> n + 1"
    using assms(2) by (simp add: counted_step_refl)
  then show ?thesis by blast
next
  case (Some s)
  obtain r1 w1 where a: "attempt E C m p w = (r1, w1)"
    by (cases "attempt E C m p w")
  from attempt_counted [OF a assms(2)] assms(3) Some
  obtain evs1 where c1: "counted_step n w evs1 w1" and k1: "counter_after n evs1 = n + 1"
    by auto
  show ?thesis
  proof (cases "\<exists>e. r1 = Inl e \<and> is_retryable C e")
    case False
    then have "w' = w1"
      using assms(1) a Some by (auto simp add: secureRequest_def split: sum.splits)
    then show ?thesis
      using c1 k1 by auto
  next
    case True
    then obtain e where e: "r1 = Inl e" "is_retryable C e" by blast
    let ?w2 = "log_event DropSession (w1\<lparr>session := None\<rparr>)"
    obtain er w3 where en: "ensureSession E C ?w2 = (er, w3)"
      by (cases "ensureSession E C ?w2")
    have c2: "counted_step (n + 1) w1 [DropSession] ?w2"
      by (simp add: counted_step_def)
    from ensureSession_quiet [OF en] obtain evs3 where
      q3: "quiet_step ?w2 (CallEnsureSession # evs3) w3" by blast
    let ?evs3 = "CallEnsureSession # evs3"
    let ?c3 = "if StoreSession \<in> set ?evs3 then 0 else n + 1"
    have k3: "counter_after (n + 1) ?evs3 = ?c3"
      using q3 quiet_counter [of ?evs3 "n + 1"] by (simp add: quiet_step_def)
    have c3: "counted_step (n + 1) ?w2 ?evs3 w3"
      using q3 by (rule quiet_step_counted) simp
    have s3: "session w3 \<noteq> None \<longrightarrow> ?c3 = 0"
      using q3 by (auto simp add: quiet_step_def split: if_splits)
    have c13: "counted_step n w (evs1 @ [DropSession] @ ?evs3) w3"
      using c1 c2 c3 k1 by (simp add: counted_step_def numbered_append counter_after_append)
    have k13: "counter_after n (evs1 @ [DropSession] @ ?evs3) = ?c3"
      using k1 k3 by (simp add: counter_after_append)
    have t3: "tracks ?c3 w3"
      using c13 k13 by (simp add: counted_step_def)
    obtain r4 w4 where a2: "attempt E C m p w3 = (r4, w4)"
      by (cases "attempt E C m p w3")
    have b3: "session w3 \<noteq> None \<longrightarrow> ?c3 < 9007199254740992"
      using s3 by simp
    from attempt_counted [OF a2 t3 b3]
    obtain evs4 where c4: "counted_step ?c3 w3 evs4 w4"
      and k4: "counter_after ?c3 evs4 = (if session w3 = None then ?c3 else ?c3 + 1)"
      by blast
    have k4': "counter_after ?c3 evs4 \<le> n + 1"
      using k4 s3 by (auto split: if_splits)
    have c4': "counted_step (counter_after n (evs1 @ [DropSession] @ ?evs3)) w3 evs4 w4"
      unfolding k13 by (rule c4)
    have c14: "counted_step n w ((evs1 @ [DropSession] @ ?evs3) @ evs4) w4"
      using c13 c4' by (rule counted_step_trans)
    have k14: "counter_after n ((evs1 @ [DropSession] @ ?evs3) @ evs4) \<le> n + 1"
      using k13 k4' by (simp only: counter_after_append [of n "evs1 @ [DropSession] @ ?evs3"])
    have unfold: "(r, w') =
           (case er of
              Inl re \<Rightarrow> retry_failed E C e re w3
            | Inr u \<Rightarrow>
                (case r4 of
                   Inr result \<Rightarrow> (Inr result, w4)
                 | Inl re \<Rightarrow> retry_failed E C e re w4))"
      using secureRequest_retry_unfold [OF Some a [unfolded e(1)] e(2) en] assms(1) a2
      by (simp split: sum.splits)
    consider re where "er = Inl re" "retry_failed E C e re w3 = (r, w')"
      | "w' = w4"
      | re where "retry_failed E C e re w4 = (r, w')"
      using unfold by (auto split: sum.splits)
    then show ?thesis
    proof cases
      case 1
      from retry_failed_counted [OF 1(2) t3] obtain evs5 where
        c5: "counted_step ?c3 w3 evs5 w'" and k5: "counter_after ?c3 evs5 = ?c3"
        by blast
      have c5': "counted_step (counter_after n (evs1 @ [DropSession] @ ?evs3)) w3 evs5 w'"
        unfolding k13 by (rule c5)
      have "counted_step n w ((evs1 @ [DropSession] @ ?evs3) @ evs5) w'"
        using c13 c5' by (rule counted_step_trans)
      moreover have "counter_after n ((evs1 @ [DropSession] @ ?evs3) @ evs5) \<le> n + 1"
        using k13 k5 by (simp only: counter_after_append [of n "evs1 @ [DropSession] @ ?evs3"])
          simp
      ultimately show ?thesis by blast
    next
      case 2
      then show ?thesis using c14 k14 by blast
    next
      case 3
      let ?evs = "(evs1 @ [DropSession] @ ?evs3) @ evs4"
      have t4: "tracks (counter_after n ?evs) w4"
        using c14 by (simp add: counted_step_def)
      from retry_failed_counted [OF 3 t4] obtain evs5 where
        c5: "counted_step (counter_after n ?evs) w4 evs5 w'"
        and k5: "counter_after (counter_after n ?evs) evs5 = counter_after n ?evs"
        by blast
      have "counted_step n w (?evs @ evs5) w'"
        using c14 c5 by (rule counted_step_trans)
      moreover have "counter_after n (?evs @ evs5) \<le> n + 1"
        using k14 k5 by (simp only: counter_after_append [of n ?evs])
      ultimately show ?thesis by blast
    qed
  qed
qed

lemma secureRequests_counted:
  assumes "secureRequests E C calls w = (rs, w')"
      and "tracks n w"
      and "n + length calls \<le> 9007199254740992"
  shows "\<exists>evs. counted_step n w evs w' \<and> counter_after n evs \<le> n + length calls"
  using assms
proof (induction calls arbitrary: w n rs w')
  case Nil
  then have "counted_step n w [] w' \<and> counter_after n [] \<le> n + length ([] :: (string \<times> jsval) list)"
    by (simp add: counted_step_refl)
  then show ?case by blast
next
  case (Cons call calls)
  obtain m p where call: "call = (m, p)" by (cases call)
  obtain r w1 where s1: "secureRequest E C m p w = (r, w1)"
    by (cases "secureRequest E C m p w")
  obtain rs' w2 where s2: "secureRequests E C calls w1 = (rs', w2)"
    by (cases "secureRequests E C calls w1")
  have w': "w' = w2"
    using Cons.prems(1) by (simp add: call s1 s2)
  have b1: "n < 9007199254740992"
    using Cons.prems(3) by simp
  from secureRequest_counted [OF s1 Cons.prems(2) b1] obtain evs1 where
    c1: "counted_step n w evs1 w1" and k1: "counter_after n evs1 \<le> n + 1"
    by blast
  have t1: "tracks (counter_after n evs1) w1"
    using c1 by (simp add: counted_step_def)
  have b2: "counter_after n evs1 + length calls \<le> 9007199254740992"
    using k1 Cons.prems(3) by simp
  from Cons.IH [OF s2 t1 b2] obtain evs2 where
    c2: "counted_step (counter_after n evs1) w1 evs2 w2"
    and k2: "counter_after (counter_after n evs1) evs2 \<le> counter_after n evs1 + length calls"
    by blast
  have "counted_step n w (evs1 @ evs2) w'"
    using c1 c2 unfolding w' by (rule counted_step_trans)
  moreover have "counter_after n (evs1 @ evs2) \<le> n + length (call # calls)"
    using k1 k2 by (simp add: counter_after_append)
  ultimately show ?case by blast
qed

lemma secureRequests_numbered:
  assumes "session w = Some s"
      and "secureRequests E C calls w = (rs, w')"
      and "seq s + length calls \<le> 9007199254740992"
  shows "numbered (seq s) (new_events w w')"
proof -
  have "tracks (seq s) w"
    using assms(1) by simp
  from secureRequests_counted [OF assms(2) this assms(3)] obtain evs where
    "counted_step (seq s) w evs w'" by blast
  then show ?thesis
    by (simp add: counted_step_def new_events_def)
qed

text \<open>
  C5, as the code has it: a session stored by a successful handshake starts with
  sequence counter 0. When calls of \<^verbatim>\<open>secureRequest\<close> run one after the other, starting
  on a session, and the counter of that session plus the number of calls does not
  exceed \<open>2\<^sup>5\<^sup>3\<close>, then, whether or not a call drops the session and re-handshakes, every
  secure request sent carries the counter of the session it is sent on plus one, which
  is that session's counter from then on (the numbering starts again at 1 on each newly
  stored session), so no number is sent twice during one session's lifetime. When
  moreover none of the calls re-handshakes (so all of them run on that one session),
  each call sends exactly one request, the sequence numbers sent count up by one from
  the counter's value, the counter ends at its value plus the number of calls, and no
  number is sent twice. From a counter of 0 the numbers sent by \<open>N\<close> calls are
  \<open>1, \<dots>, N\<close>.
\<close>

theorem sequence_numbers_count_up:
  "(beginHandshake E C w0 = (HsOk sidv, w1) \<longrightarrow> (\<exists>s1. session w1 = Some s1 \<and> seq s1 = 0)) \<and>
   (session w = Some s \<and> secureRequests E C calls w = (rs, w') \<and>
    seq s + length calls \<le> 9007199254740992 \<longrightarrow>
      numbered (seq s) (new_events w w') \<and>
      (\<forall>l \<in> set (lifetimes (new_events w w')). distinct (sent_seqs l)) \<and>
      (count_event CallEnsureSession (new_events w w') = 0 \<longrightarrow>
         sent_seqs (new_events w w') = map JNum [seq s + 1 ..< seq s + 1 + length calls] \<and>
         distinct (sent_seqs (new_events w w')) \<and>
         session w' = Some (s\<lparr>seq := seq s + length calls\<rparr>) \<and>
         (seq s = 0 \<longrightarrow> sent_seqs (new_events w w') = map JNum [1 ..< length calls + 1])))"
proof -
  have a: "\<exists>s1. session w1 = Some s1 \<and> seq s1 = 0"
    if "beginHandshake E C w0 = (HsOk sidv, w1)"
    using that by (rule beginHandshake_ok_seq)
  have b: "numbered (seq s) (new_events w w')"
    if "session w = Some s" "secureRequests E C calls w = (rs, w')"
       "seq s + length calls \<le> 9007199254740992"
    using that by (rule secureRequests_numbered)
  have c: "\<forall>l \<in> set (lifetimes (new_events w w')). distinct (sent_seqs l)"
    if "numbered (seq s) (new_events w w')"
    using numbered_lifetimes_distinct [OF that] by blast
  have d: "sent_seqs (new_events w w') = map JNum [seq s + 1 ..< seq s + 1 + length calls] \<and>
           session w' = Some (s\<lparr>seq := seq s + length calls\<rparr>)"
    if "session w = Some s" "secureRequests E C calls w = (rs, w')"
       "count_event CallEnsureSession (new_events w w') = 0"
       "seq s + length calls \<le> 9007199254740992"
    using that by (rule secureRequests_same_session)
  have e: "distinct (map JNum [seq s + 1 ..< seq s + 1 + length calls])"
    by (simp add: distinct_map_JNum)
  show ?thesis
    using a b c d e by auto
qed

lemma attempt_host_ok:
  assumes "session w = Some s"
  shows "fst (attempt (E0 host_ok) C0 m p w) = Inr (JStr ''done'')"
  using assms
  by (simp add: attempt_def Let_def generateNonce_def sendRequest_def E0_def host_ok_def
      base64Decode_def secretboxOpen_def bytes_of_def split_def)

lemma secureRequest_host_ok:
  assumes "session w = Some s"
  shows "secureRequest (E0 host_ok) C0 m p w = attempt (E0 host_ok) C0 m p w"
  using assms attempt_host_ok [OF assms, of m p]
  by (cases "attempt (E0 host_ok) C0 m p w") (simp add: secureRequest_def)

lemma secureRequests_host_ok:
  assumes "session w = Some s"
      and "secureRequests (E0 host_ok) C0 calls w = (rs, w')"
  shows "count_event CallEnsureSession (new_events w w') = 0"
  using assms
proof (induction calls arbitrary: w s rs w')
  case Nil
  then show ?case by (simp add: new_events_def)
next
  case (Cons call calls)
  obtain m p where call: "call = (m, p)" by (cases call)
  obtain r w1 where a: "attempt (E0 host_ok) C0 m p w = (r, w1)"
    by (cases "attempt (E0 host_ok) C0 m p w")
  obtain rs' w2 where s2: "secureRequests (E0 host_ok) C0 calls w1 = (rs', w2)"
    by (cases "secureRequests (E0 host_ok) C0 calls w1")
  have w': "w' = w2"
    using Cons.prems(2) by (simp add: call secureRequest_host_ok [OF Cons.prems(1)] a s2)
  from attempt_on_session_double [OF Cons.prems(1) a]
  obtain ps where first: "session w1 = Some (s\<lparr>seq := js_increment (seq s)\<rparr>)"
    "trace w1 = trace w @ [CallAttempt, SendRequest ''nmSecureRequest'' ps]"
    by blast
  from secureRequests_trace [OF s2] obtain evs2 where t2: "trace w2 = trace w1 @ evs2"
    by blast
  have "new_events w w2 = new_events w w1 @ new_events w1 w2"
    using first(2) t2 by (rule new_events_trans)
  then show ?case
    using Cons.IH [OF first(1) s2] first(2) by (simp add: w')
qed


theorem sequence_numbers_count_up_witness:
  "fst (beginHandshake (E0 host_ok) C0 (paired0 ''sig'')) = HsOk (JStr ''session-1'') \<and>
   map_option seq (session handshaking0) = Some 0 \<and>
   numbered 0 (new_events handshaking0
     (snd (secureRequests (E0 host_ok) C0
        [(''getVaults'', JNull), (''getRecords'', JNull), (''getFolders'', JNull)] handshaking0))) \<and>
   sent_seqs (new_events handshaking0
     (snd (secureRequests (E0 host_ok) C0
        [(''getVaults'', JNull), (''getRecords'', JNull), (''getFolders'', JNull)] handshaking0)))
     = [JNum 1, JNum 2, JNum 3] \<and>
   map_option seq (session
     (snd (secureRequests (E0 host_ok) C0
        [(''getVaults'', JNull), (''getRecords'', JNull), (''getFolders'', JNull)] handshaking0)))
     = Some 3"
proof -
  let ?calls = "[(''getVaults'', JNull), (''getRecords'', JNull), (''getFolders'', JNull)]"
  let ?run = "secureRequests (E0 host_ok) C0 ?calls handshaking0"
  have b: "beginHandshake (E0 host_ok) C0 (paired0 ''sig'') = (HsOk (JStr ''session-1''), handshaking0)"
    by (simp add: beginHandshake_paired0 handshaking0_eq)
  have r: "?run = (fst ?run, snd ?run)"
    by (rule surjective_pairing)
  have c: "count_event CallEnsureSession (new_events handshaking0 (snd ?run)) = 0"
    using secureRequests_host_ok [OF session_handshaking0 r] .
  let ?s = "\<lparr>sid = JStr ''session-1'',
      skey = take 32 (sha256 (E0 host_ok)
               ((random_bytes (E0 host_ok) 0 32 @
                 bytes_of ''0123456789abcdef0123456789abcdef'') @
                bytes_of ''0123456789abcdef0123456789abcdef'' @
                own_ephemeral_public (E0 host_ok) (paired0 ''sig'') @ publicKey client0)),
      seq = 0,
      hostEphemeralPubB64 = JStr ''0123456789abcdef0123456789abcdef''\<rparr>"
  show ?thesis
    using sequence_numbers_count_up
            [of "E0 host_ok" C0 "paired0 ''sig''" "JStr ''session-1''" handshaking0
                handshaking0 ?s ?calls "fst ?run" "snd ?run"]
          b r c session_handshaking0
    by (simp del: secureRequests.simps)
qed

lemma secureRequests_append:
  "secureRequests E C (xs @ ys) w =
     (case secureRequests E C xs w of
        (rs1, w1) \<Rightarrow> (case secureRequests E C ys w1 of (rs2, w2) \<Rightarrow> (rs1 @ rs2, w2)))"
  by (induction xs arbitrary: w) (auto split: prod.splits)

lemma host_ok_run_then_one:
  assumes "session w = Some s" and "seq s = 0" and "length cs = k" and "0 < k"
      and "k \<le> 9007199254740992"
  shows "length (sent_seqs (new_events w
           (snd (secureRequests (E0 host_ok) C0 (cs @ [c]) w)))) = k + 1 \<and>
         sent_seqs (new_events w
           (snd (secureRequests (E0 host_ok) C0 (cs @ [c]) w))) ! (k - 1) = JNum k \<and>
         sent_seqs (new_events w
           (snd (secureRequests (E0 host_ok) C0 (cs @ [c]) w))) ! k = JNum (js_increment k) \<and>
         count_event CallEnsureSession (new_events w
           (snd (secureRequests (E0 host_ok) C0 (cs @ [c]) w))) = 0"
proof -
  obtain m p where c: "c = (m, p)" by (cases c)
  obtain rs1 w1 where r1: "secureRequests (E0 host_ok) C0 cs w = (rs1, w1)"
    by (cases "secureRequests (E0 host_ok) C0 cs w")
  obtain r2 w2 where a2: "attempt (E0 host_ok) C0 m p w1 = (r2, w2)"
    by (cases "attempt (E0 host_ok) C0 m p w1")
  have n1: "count_event CallEnsureSession (new_events w w1) = 0"
    using secureRequests_host_ok [OF assms(1) r1] .
  have bound: "seq s + length cs \<le> 9007199254740992"
    using assms(2,3,5) by simp
  from secureRequests_same_session [OF assms(1) r1 n1 bound]
  have sent1: "sent_seqs (new_events w w1) = map JNum [1 ..< 1 + k]"
    and s1: "session w1 = Some (s\<lparr>seq := k\<rparr>)"
    using assms(2,3) by simp_all
  from attempt_on_session_double [OF s1 a2]
  obtain ps where t2: "trace w2 = trace w1 @ [CallAttempt, SendRequest ''nmSecureRequest'' ps]"
    and q2: "opt_prop ps ''seq'' = JNum (js_increment k)"
    by auto
  from secureRequests_trace [OF r1] obtain evs1 where t1: "trace w1 = trace w @ evs1"
    by blast
  have split: "new_events w w2 = new_events w w1 @ new_events w1 w2"
    using t1 t2 by (rule new_events_trans)
  have n2: "new_events w1 w2 = [CallAttempt, SendRequest ''nmSecureRequest'' ps]"
    using t2 by (simp add: new_events_def)
  have run: "snd (secureRequests (E0 host_ok) C0 (cs @ [c]) w) = w2"
    by (simp add: secureRequests_append r1 c secureRequest_host_ok [OF s1] a2)
  have sent: "sent_seqs (new_events w w2) = map JNum [1 ..< 1 + k] @ [JNum (js_increment k)]"
    using sent1 q2 by (simp add: split n2)
  have "length (sent_seqs (new_events w w2)) = k + 1"
    unfolding sent by simp
  moreover have "sent_seqs (new_events w w2) ! (k - 1) = JNum k"
    unfolding sent using assms(4) by (simp add: nth_append)
  moreover have "sent_seqs (new_events w w2) ! k = JNum (js_increment k)"
    unfolding sent by (simp add: nth_append)
  moreover have "count_event CallEnsureSession (new_events w w2) = 0"
    using n1 by (simp add: split n2)
  ultimately show ?thesis
    unfolding run by blast
qed

text \<open>
  The claim as stated fails beyond \<open>2\<^sup>5\<^sup>3\<close> requests on one session: here \<open>2\<^sup>5\<^sup>3 + 1\<close>
  calls run one after the other on the session a handshake has just stored, the desktop
  answers each of them properly, so none re-handshakes, and each sends one request. The
  request of call \<open>2\<^sup>5\<^sup>3\<close> carries \<open>2\<^sup>5\<^sup>3\<close>, and so does the request of the call after
  it: the increment no longer changes the counter.
\<close>

theorem sequence_number_sent_twice:
  "map_option seq (session handshaking0) = Some 0 \<and>
   length (sent_seqs (new_events handshaking0
     (snd (secureRequests (E0 host_ok) C0
        (replicate 9007199254740992 (''getVaults'', JNull) @ [(''getVaults'', JNull)])
        handshaking0)))) = 9007199254740993 \<and>
   sent_seqs (new_events handshaking0
     (snd (secureRequests (E0 host_ok) C0
        (replicate 9007199254740992 (''getVaults'', JNull) @ [(''getVaults'', JNull)])
        handshaking0))) ! 9007199254740991 = JNum 9007199254740992 \<and>
   sent_seqs (new_events handshaking0
     (snd (secureRequests (E0 host_ok) C0
        (replicate 9007199254740992 (''getVaults'', JNull) @ [(''getVaults'', JNull)])
        handshaking0))) ! 9007199254740992 = JNum 9007199254740992 \<and>
   count_event CallEnsureSession (new_events handshaking0
     (snd (secureRequests (E0 host_ok) C0
        (replicate 9007199254740992 (''getVaults'', JNull) @ [(''getVaults'', JNull)])
        handshaking0))) = 0"
proof -
  have s0: "seq \<lparr>sid = JStr ''session-1'',
      skey = take 32 (sha256 (E0 host_ok)
               ((random_bytes (E0 host_ok) 0 32 @
                 bytes_of ''0123456789abcdef0123456789abcdef'') @
                bytes_of ''0123456789abcdef0123456789abcdef'' @
                own_ephemeral_public (E0 host_ok) (paired0 ''sig'') @ publicKey client0)),
      seq = 0,
      hostEphemeralPubB64 = JStr ''0123456789abcdef0123456789abcdef''\<rparr> = 0"
    by simp
  have l: "length (replicate 9007199254740992 (''getVaults'', JNull)) = 9007199254740992"
    by (rule length_replicate)
  have "map_option seq (session handshaking0) = Some 0"
    by (simp add: session_handshaking0)
  then show ?thesis
    using host_ok_run_then_one [OF session_handshaking0 s0 l, of "(''getVaults'', JNull)"]
      js_increment_stuck
    by simp
qed

section \<open>Retrying a secure request\<close>

lemma handshake_events_counts:
  "handshake_events evs \<Longrightarrow>
     count_event CallAttempt evs = 0 \<and> count_event CallEnsureSession evs = 0 \<and>
     count_event DropSession evs = 0"
  by (simp add: handshake_events_def)

text \<open>
  C2, as the code has it: \<^verbatim>\<open>secureRequest\<close> is called on a held session and its first
  attempt fails with a decrypt-failed, secure-request-failed, no-session or
  session-not-found error. Then the session is dropped and \<^verbatim>\<open>ensureSession\<close> runs
  exactly once. When \<^verbatim>\<open>ensureSession\<close> succeeds, the operation is retried exactly once
  and the outcome of the retry is the outcome of the call; when it fails, the operation
  is not retried and its error is the error of the call. The error is surfaced
  unchanged. When its message (the first error's message if it is empty) includes an
  identity-level pattern, \<^verbatim>\<open>clearSession\<close> runs with that message on the state the failed
  step left: the paired flag is stored as false, the pairing-required notification is
  the last event, and, where the store assigns the values that are \<^verbatim>\<open>undefined\<close>, no
  pinned identity is left. Otherwise \<^verbatim>\<open>secureRequest\<close> clears nothing itself: storage is
  untouched and nothing is notified when \<^verbatim>\<open>ensureSession\<close> had succeeded, and the state
  is as \<^verbatim>\<open>ensureSession\<close> left it when \<^verbatim>\<open>ensureSession\<close> is what failed.
\<close>

theorem secureRequest_retry_once:
  assumes "session w = Some s"
      and "attempt E C method params w = (Inl e, w1)"
      and "is_retryable C e"
      and "ensureSession E C (log_event DropSession (w1\<lparr>session := None\<rparr>)) = (er, w3)"
      and "secureRequest E C method params w = (r, w')"
  shows "(\<exists>evs. new_events w1 w' = DropSession # CallEnsureSession # evs \<and>
            count_event DropSession evs = 0 \<and>
            count_event CallEnsureSession evs = 0 \<and>
            count_event CallAttempt evs = (if er = Inr () then 1 else 0)) \<and>
         (er = Inr () \<longrightarrow> r = fst (attempt E C method params w3)) \<and>
         (\<forall>re. er = Inl re \<longrightarrow> r = Inl re) \<and>
         (\<forall>re. r = Inl re \<and> is_identity_level C (if re \<noteq> [] then re else e) \<longrightarrow>
            w' = clearSession E (if re \<noteq> [] then re else e)
                   (if er = Inr () then snd (attempt E C method params w3) else w3) \<and>
            storage w' STORAGE_paired = Some (JBool False) \<and>
            (\<not> storage_skips_undefined E \<longrightarrow> getPinnedIdentity w' = None) \<and>
            (\<exists>evs. trace w' = evs @ [PairingRequired (if re \<noteq> [] then re else e)])) \<and>
         (\<forall>re. r = Inl re \<and> \<not> is_identity_level C (if re \<noteq> [] then re else e) \<longrightarrow>
            (er = Inr () \<longrightarrow> storage w' = storage w \<and> notifications (new_events w w') = []) \<and>
            (er = Inl re \<longrightarrow> w' = w3))"
proof -
  let ?w2 = "log_event DropSession (w1\<lparr>session := None\<rparr>)"
  note unfold = secureRequest_retry_unfold [OF assms(1-4)]
  from attempt_on_session_double [OF assms(1,2)] obtain ps where
    a1: "storage w1 = storage w"
        "trace w1 = trace w @ [CallAttempt, SendRequest ''nmSecureRequest'' ps]"
    by blast
  from ensureSession_effect [OF assms(4)] obtain evs3 where
    e3: "trace w3 = trace ?w2 @ CallEnsureSession # evs3" "handshake_events evs3"
        "er = Inr () \<longrightarrow> storage w3 = storage ?w2 \<and> notifications evs3 = []"
    by blast
  note c3 = handshake_events_counts [OF e3(2)]
  show ?thesis
  proof (cases er)
    case (Inl re)
    then have res: "r = Inl re"
      "w' = (if is_identity_level C (if re \<noteq> [] then re else e)
             then clearSession E (if re \<noteq> [] then re else e) w3 else w3)"
      using assms(5) unfold by (simp_all add: retry_failed_eq)
    show ?thesis
      using Inl res e3(1) c3 by (auto simp add: new_events_def getPinnedIdentity_clearSession paired_flag_unpair)
  next
    case (Inr u)
    obtain r4 w4 where a2: "attempt E C method params w3 = (r4, w4)"
      by (cases "attempt E C method params w3")
    from attempt_effect [OF a2] obtain evs4 where
      e4: "trace w4 = trace w3 @ CallAttempt # evs4" "handshake_events evs4"
          "storage w4 = storage w3" "notifications evs4 = []"
      by blast
    note c4 = handshake_events_counts [OF e4(2)]
    have res: "r = r4"
      "w' = (case r4 of Inr v \<Rightarrow> w4
             | Inl re \<Rightarrow> if is_identity_level C (if re \<noteq> [] then re else e)
                         then clearSession E (if re \<noteq> [] then re else e) w4 else w4)"
      using assms(5) unfold Inr a2 by (auto simp add: retry_failed_eq split: sum.splits)
    show ?thesis
      using Inr res a1 a2 e3 e4 c3 c4
      by (auto simp add: new_events_def getPinnedIdentity_clearSession paired_flag_unpair
          split: sum.splits)
  qed
qed


text \<open>A handshake in the concrete environment, on either store, for any desktop that answers it.\<close>

lemma E0_on_fields [simp]:
  "host (E0_on sk h) = h"
  "storage_skips_undefined (E0_on sk h) = sk"
  by (simp_all add: E0_on_def)

lemma E0_on_False: "E0_on False h = E0 h"
  by (simp add: E0_on_def E0_def)

lemma base64Decode_E0_on [simp]:
  "s \<noteq> ''undefined'' \<Longrightarrow> base64Decode (E0_on sk h) (JStr s) = Inr (bytes_of s)"
  by (simp add: base64Decode_def E0_on_def E0_def)

lemma beginHandshake_E0:
  assumes "\<And>tr ps. h tr ''nmBeginHandshake'' ps = Inr begin_response"
      and "storage w = storage (paired0 ''sig'')"
      and "inMemoryKeypair w = Some client0"
  shows "\<exists>k. beginHandshake (E0_on sk h) C0 w =
           (HsOk (JStr ''session-1''),
            (log_event StoreSession (log_event CallVerify (begin_sent (E0_on sk h) w)))
              \<lparr>session := Some \<lparr>sid = JStr ''session-1'', skey = k, seq = 0,
                  hostEphemeralPubB64 = JStr ''0123456789abcdef0123456789abcdef''\<rparr>\<rparr>)"
proof -
  let ?E = "E0_on sk h"
  let ?host = "bytes_of ''0123456789abcdef0123456789abcdef''"
  have h1: "host ?E (trace w) ''nmBeginHandshake'' (begin_params ?E w) = Inr begin_response"
    using assms(1) by (simp add: E0_on_def E0_def)
  have h2: "getPinnedIdentity w
              = Some \<lparr>fingerprint = JStr ''ff00aa11'', ed25519PublicKey = JStr ''sig'',
                       x25519PublicKey = JStr ''xpk''\<rparr>"
    using getPinnedIdentity_cong [OF assms(2)] by (simp add: getPinnedIdentity_paired0)
  have h3: "get_prop begin_response ''hostEphemeralPubB64''
              = Inr (JStr ''0123456789abcdef0123456789abcdef'')"
    by simp
  have h4: "base64Decode ?E (JStr ''0123456789abcdef0123456789abcdef'') = Inr ?host"
    by simp
  have h6: "base64Decode ?E (ed25519PublicKey \<lparr>fingerprint = JStr ''ff00aa11'',
              ed25519PublicKey = JStr ''sig'', x25519PublicKey = JStr ''xpk''\<rparr>)
              = Inr (bytes_of ''sig'')"
    by simp
  have h7: "get_prop begin_response ''signatureB64'' = Inr (JStr ''sig'')"
    by simp
  have h8: "base64Decode ?E (JStr ''sig'') = Inr (bytes_of ''sig'')"
    by simp
  have h9: "verifyEd25519Signature ?E (?host @ own_ephemeral_public ?E w @ publicKey client0)
              (bytes_of ''sig'') (bytes_of ''sig'')"
    by (simp add: verifyEd25519Signature_def E0_on_def E0_def)
  have h10: "x25519_getSharedSecret ?E (random_bytes ?E (draws w) 32) ?host
               = Inr (random_bytes ?E (draws w) 32 @ ?host)"
    by (simp add: E0_on_def E0_def)
  have sidv: "get_prop begin_response ''sessionId'' = Inr (JStr ''session-1'')"
    by (simp add: begin_response_def)
  have "beginHandshake (E0_on sk h) C0 w =
           (HsOk (JStr ''session-1''),
            (log_event StoreSession (log_event CallVerify (begin_sent (E0_on sk h) w)))
              \<lparr>session := Some \<lparr>sid = JStr ''session-1'',
                  skey = take 32 (sha256 ?E ((random_bytes ?E (draws w) 32 @ ?host) @ ?host @
                           own_ephemeral_public ?E w @ publicKey client0)),
                  seq = 0,
                  hostEphemeralPubB64 = JStr ''0123456789abcdef0123456789abcdef''\<rparr>\<rparr>)"
    using beginHandshake_try_verified [OF h1 h2 h3 h4 assms(3) h6 h7 h8, of C0] h9 h10 sidv
    by (simp add: beginHandshake_def)
  then show ?thesis
    by blast
qed

lemma finishHandshake_E0:
  assumes "\<And>tr ps. h tr ''nmFinishHandshake'' ps = Inr fin"
      and "session w = Some \<lparr>sid = JStr ''session-1'', skey = k, seq = 0,
                  hostEphemeralPubB64 = JStr ''0123456789abcdef0123456789abcdef''\<rparr>"
      and "ephemeralKeyPair w = Some eph"
      and "inMemoryKeypair w = Some client0"
  shows "\<exists>ps. finishHandshake (E0_on sk h) C0 id id w =
           (fin, finishHandshake_finally (log_event (SendRequest ''nmFinishHandshake'' ps) w))"
proof -
  let ?E = "E0_on sk h"
  have d: "base64Decode ?E (JStr ''0123456789abcdef0123456789abcdef'')
             = Inr (bytes_of ''0123456789abcdef0123456789abcdef'')"
    by simp
  have l: "length (bytes_of ''0123456789abcdef0123456789abcdef'') = 32"
    by (simp add: bytes_of_def)
  have sg: "ed25519_sign ?E msg (privateKey client0) = Inr (privateKey client0)" for msg
    by (simp add: E0_on_def E0_def)
  have "finishHandshake_try ?E C0 id id w =
          sendRequest ?E ''nmFinishHandshake''
            (JObj [(''sessionId'', JStr ''session-1''),
                   (''clientSigB64'', JStr (base64Encode ?E (privateKey client0)))]) w"
    using finishHandshake_try_sent [OF assms(2) _ _ assms(3) _ l assms(4) sg, of C0] d
    by simp
  then have "finishHandshake (E0_on sk h) C0 id id w =
           (fin, finishHandshake_finally (log_event (SendRequest ''nmFinishHandshake''
              (JObj [(''sessionId'', JStr ''session-1''),
                     (''clientSigB64'', JStr (base64Encode ?E (privateKey client0)))])) w))"
    using assms(1) by (simp add: finishHandshake_def sendRequest_def)
  then show ?thesis
    by blast
qed


lemma isPaired_cong: "storage w' = storage w \<Longrightarrow> isPaired w' = isPaired w"
  using getPinnedIdentity_cong [of w' w] by (simp add: isPaired_def)

lemma isPaired_paired0 [simp]: "edpk \<noteq> [] \<Longrightarrow> isPaired (paired0 edpk)"
  by (simp add: isPaired_def getPinnedIdentity_paired0)

lemma ensureSession_E0:
  assumes "\<And>tr ps. h tr ''nmBeginHandshake'' ps = Inr begin_response"
      and "\<And>tr ps. h tr ''nmFinishHandshake'' ps = Inr fin"
      and "storage w = storage (paired0 ''sig'')"
      and "inMemoryKeypair w = Some client0"
      and "session w = None"
  shows "\<exists>wF. storage wF = storage w \<and> (\<exists>s. session wF = Some s) \<and>
           (\<exists>evs. trace wF = trace w @ evs \<and> notifications evs = []) \<and>
           ensureSession (E0_on sk h) C0 w =
             (if truthy (opt_prop fin ''ok'') then (Inr (), wF) else finish_failed (E0_on sk h) C0 fin wF)"
proof -
  let ?w0 = "log_event CallEnsureSession w"
  have p: "isPaired ?w0"
    using isPaired_cong [of ?w0 "paired0 ''sig''"] assms(3) by simp
  have k: "ensureClientKeypairUnlocked (E0_on sk h) C0 None ?w0 = (Inr client0, ?w0)"
    using assms(4) by (simp add: ensureClientKeypairUnlocked_def)
  have "\<exists>k. beginHandshake (E0_on sk h) C0 ?w0 =
      (HsOk (JStr ''session-1''),
       (log_event StoreSession (log_event CallVerify (begin_sent (E0_on sk h) ?w0)))
         \<lparr>session := Some \<lparr>sid = JStr ''session-1'', skey = k, seq = 0,
             hostEphemeralPubB64 = JStr ''0123456789abcdef0123456789abcdef''\<rparr>\<rparr>)"
    using assms(1,3,4) by (intro beginHandshake_E0) simp_all
  then obtain kk where b: "beginHandshake (E0_on sk h) C0 ?w0 =
      (HsOk (JStr ''session-1''),
       (log_event StoreSession (log_event CallVerify (begin_sent (E0_on sk h) ?w0)))
         \<lparr>session := Some \<lparr>sid = JStr ''session-1'', skey = kk, seq = 0,
             hostEphemeralPubB64 = JStr ''0123456789abcdef0123456789abcdef''\<rparr>\<rparr>)"
    (is "_ = (_, ?wB)")
    by blast
  have "\<exists>ps. finishHandshake (E0_on sk h) C0 id id ?wB =
      (fin, finishHandshake_finally (log_event (SendRequest ''nmFinishHandshake'' ps) ?wB))"
    using assms(2,4) by (intro finishHandshake_E0 [where k = kk]) simp_all
  then obtain ps where f: "finishHandshake (E0_on sk h) C0 id id ?wB =
      (fin, finishHandshake_finally (log_event (SendRequest ''nmFinishHandshake'' ps) ?wB))"
    (is "_ = (_, ?wF)")
    by blast
  have "ensureSession (E0_on sk h) C0 w =
          (if truthy (opt_prop fin ''ok'') then (Inr (), ?wF) else finish_failed (E0_on sk h) C0 fin ?wF)"
    using assms(5) p
    by (simp add: ensureSession_def hasActiveSession_def performHandshake_def k b f)
  moreover have "storage ?wF = storage w" "\<exists>s. session ?wF = Some s"
    by simp_all
  moreover have "trace ?wF = trace w @
      [CallEnsureSession, SendRequest ''nmBeginHandshake'' (begin_params (E0_on sk h) ?w0),
       CallVerify, StoreSession, SendRequest ''nmFinishHandshake'' ps]"
    by simp
  then have "\<exists>evs. trace ?wF = trace w @ evs \<and> notifications evs = []"
    by (rule exI [of _ "[CallEnsureSession,
       SendRequest ''nmBeginHandshake'' (begin_params (E0_on sk h) ?w0),
       CallVerify, StoreSession, SendRequest ''nmFinishHandshake'' ps]", OF conjI]) simp
  ultimately show ?thesis
    by blast
qed


lemma attempt_host_busy:
  assumes "session w = Some s"
  shows "fst (attempt (E0_on sk host_busy) C0 m p w) = Inl ''DecryptFailed''"
  using assms
  by (simp add: attempt_def Let_def generateNonce_def sendRequest_def E0_on_def E0_def host_busy_def
      base64Decode_def secretboxOpen_def split_def C0_def)

lemma attempt_host_flaky:
  assumes "session w = Some s"
  shows "fst (attempt (E0 host_flaky) C0 m p w) =
           (if sent_seqs (trace w) = [] then Inl ''DecryptFailed'' else Inr (JStr ''done''))"
  using assms
  by (simp add: attempt_def Let_def generateNonce_def sendRequest_def E0_def host_flaky_def
      base64Decode_def secretboxOpen_def split_def C0_def bytes_of_def)

lemma retryable_DecryptFailed: "is_retryable C0 ''DecryptFailed''"
  by (simp add: is_retryable_def C0_def)

lemma active0_fields [simp]:
  "session active0 = Some session0"
  "storage active0 = storage (paired0 ''sig'')"
  "inMemoryKeypair active0 = Some client0"
  "trace active0 = []"
  by (simp_all add: active0_def)

lemma stale0_fields [simp]:
  "session stale0 = Some session0"
  "storage stale0 = storage (paired0 ''desktop-edpk'')"
  "inMemoryKeypair stale0 = Some client0"
  "trace stale0 = []"
  by (simp_all add: stale0_def)

text \<open>The state in which \<^verbatim>\<open>ensureSession\<close> runs after a first attempt has failed.\<close>

lemma after_first_attempt:
  assumes "session w = Some s" and "attempt E C m p w = (r, w1)"
  shows "storage (log_event DropSession (w1\<lparr>session := None\<rparr>)) = storage w"
    and "inMemoryKeypair (log_event DropSession (w1\<lparr>session := None\<rparr>)) = inMemoryKeypair w"
    and "session (log_event DropSession (w1\<lparr>session := None\<rparr>)) = None"
    and "\<exists>ps. trace (log_event DropSession (w1\<lparr>session := None\<rparr>))
               = trace w @ [CallAttempt, SendRequest ''nmSecureRequest'' ps, DropSession]"
  using attempt_on_session_double [OF assms] by auto


lemma host_busy_answers:
  "host_busy tr ''nmBeginHandshake'' ps = Inr begin_response"
  "host_busy tr ''nmFinishHandshake'' ps = Inr (JObj [(''ok'', JBool False), (''error'', JStr ''Busy'')])"
  by (simp_all add: host_busy_def)

lemma host_flaky_answers:
  "host_flaky tr ''nmBeginHandshake'' ps = Inr begin_response"
  "host_flaky tr ''nmFinishHandshake'' ps = Inr (JObj [(''ok'', JBool True)])"
  by (simp_all add: host_flaky_def)

lemma finish_failed_busy:
  "finish_failed E C0 (JObj [(''ok'', JBool False), (''error'', JStr ''Busy'')]) w
     = (Inl ''Busy'', clearSession E ''Busy'' w)"
  by (simp add: finish_failed_def Let_def C0_def)

lemma not_identity_level_Busy: "\<not> is_identity_level C0 ''Busy''"
  by (simp add: is_identity_level_def C0_def)

text \<open>
  The claim as stated fails when the re-handshake itself fails: here the first attempt
  fails to decrypt, the desktop then refuses to finish the new handshake because it is
  busy. The operation is not retried (one attempt in all), the error is not an
  identity-level one, and yet pairing is cleared, by the handshake's own handling of a
  failed finish: \<^verbatim>\<open>clearSession\<close> has run, the paired flag, true before, is stored as
  false, the client key pair is forgotten and the pairing-required notification is
  emitted. This is so on either store.
\<close>

lemma secureRequest_host_busy:
  "fst (attempt (E0_on sk host_busy) C0 ''getVaults'' JNull active0) = Inl ''DecryptFailed'' \<and>
   fst (secureRequest (E0_on sk host_busy) C0 ''getVaults'' JNull active0) = Inl ''Busy'' \<and>
   count_event CallAttempt (new_events active0
     (snd (secureRequest (E0_on sk host_busy) C0 ''getVaults'' JNull active0))) = 1 \<and>
   storage (snd (secureRequest (E0_on sk host_busy) C0 ''getVaults'' JNull active0))
     STORAGE_paired = Some (JBool False) \<and>
   inMemoryKeypair (snd (secureRequest (E0_on sk host_busy) C0 ''getVaults'' JNull active0))
     = None \<and>
   notifications (new_events active0
     (snd (secureRequest (E0_on sk host_busy) C0 ''getVaults'' JNull active0))) = [''Busy'']"
proof -
  let ?E = "E0_on sk host_busy"
  obtain r1 w1 where a: "attempt ?E C0 ''getVaults'' JNull active0 = (r1, w1)"
    by (cases "attempt ?E C0 ''getVaults'' JNull active0")
  have r1: "r1 = Inl ''DecryptFailed''"
    using attempt_host_busy [of active0 session0 sk "''getVaults''" JNull] a by simp
  let ?w2 = "log_event DropSession (w1\<lparr>session := None\<rparr>)"
  note w2 = after_first_attempt [OF active0_fields(1) a]
  obtain ps where t2: "trace ?w2 = [CallAttempt, SendRequest ''nmSecureRequest'' ps, DropSession]"
    using w2(4) by auto
  have "\<exists>wF. storage wF = storage ?w2 \<and> (\<exists>s. session wF = Some s) \<and>
           (\<exists>evs. trace wF = trace ?w2 @ evs \<and> notifications evs = []) \<and>
           ensureSession ?E C0 ?w2 =
             (if truthy (opt_prop (JObj [(''ok'', JBool False), (''error'', JStr ''Busy'')]) ''ok'')
              then (Inr (), wF)
              else finish_failed ?E C0 (JObj [(''ok'', JBool False), (''error'', JStr ''Busy'')]) wF)"
    using w2(1-3) by (intro ensureSession_E0) (simp_all add: host_busy_answers)
  then obtain wF evsF where en: "ensureSession ?E C0 ?w2 = (Inl ''Busy'', clearSession ?E ''Busy'' wF)"
    and tF: "trace wF = trace ?w2 @ evsF" "notifications evsF = []"
    by (auto simp add: finish_failed_busy)
  from ensureSession_effect [OF en] obtain evs3 where
    t3: "trace (clearSession ?E ''Busy'' wF) = trace ?w2 @ CallEnsureSession # evs3"
        "handshake_events evs3"
    by blast
  have s: "secureRequest ?E C0 ''getVaults'' JNull active0 = (Inl ''Busy'', clearSession ?E ''Busy'' wF)"
    using secureRequest_retry_unfold
            [OF active0_fields(1) a [unfolded r1] retryable_DecryptFailed en]
          not_identity_level_Busy
    by (simp add: retry_failed_eq)
  have "new_events active0 (clearSession ?E ''Busy'' wF)
          = [CallAttempt, SendRequest ''nmSecureRequest'' ps, DropSession, CallEnsureSession] @ evs3"
    unfolding new_events_def t3(1) t2 by simp
  then have c: "count_event CallAttempt (new_events active0 (clearSession ?E ''Busy'' wF)) = 1"
    using handshake_events_counts [OF t3(2)] by simp
  have "new_events active0 (clearSession ?E ''Busy'' wF)
          = [CallAttempt, SendRequest ''nmSecureRequest'' ps, DropSession] @ evsF @
            [PairingRequired ''Busy'']"
    unfolding new_events_def clearSession_simps(7) tF(1) t2 by simp
  then have n: "notifications (new_events active0 (clearSession ?E ''Busy'' wF)) = [''Busy'']"
    using tF(2) by simp
  show ?thesis
    unfolding s a using r1 c n by (simp add: paired_flag_unpair)
qed

text \<open>
  The same run on the store that assigns undefined values and on the store that skips
  them.
\<close>

theorem secureRequest_rehandshake_fails:
  "fst (attempt (E0 host_busy) C0 ''getVaults'' JNull active0) = Inl (DECRYPT_FAILED C0) \<and>
   fst (secureRequest (E0 host_busy) C0 ''getVaults'' JNull active0) = Inl ''Busy'' \<and>
   is_identity_level C0 ''Busy'' = False \<and>
   count_event CallAttempt
     (new_events active0 (snd (secureRequest (E0 host_busy) C0 ''getVaults'' JNull active0))) = 1 \<and>
   storage active0 STORAGE_paired = Some (JBool True) \<and>
   storage (snd (secureRequest (E0 host_busy) C0 ''getVaults'' JNull active0)) STORAGE_paired
     = Some (JBool False) \<and>
   inMemoryKeypair active0 = Some client0 \<and>
   inMemoryKeypair (snd (secureRequest (E0 host_busy) C0 ''getVaults'' JNull active0)) = None \<and>
   notifications
     (new_events active0 (snd (secureRequest (E0 host_busy) C0 ''getVaults'' JNull active0)))
     = [''Busy''] \<and>
   fst (secureRequest (E0_on True host_busy) C0 ''getVaults'' JNull active0) = Inl ''Busy'' \<and>
   count_event CallAttempt
     (new_events active0
        (snd (secureRequest (E0_on True host_busy) C0 ''getVaults'' JNull active0))) = 1 \<and>
   storage (snd (secureRequest (E0_on True host_busy) C0 ''getVaults'' JNull active0))
     STORAGE_paired = Some (JBool False) \<and>
   inMemoryKeypair (snd (secureRequest (E0_on True host_busy) C0 ''getVaults'' JNull active0))
     = None \<and>
   notifications
     (new_events active0
        (snd (secureRequest (E0_on True host_busy) C0 ''getVaults'' JNull active0)))
     = [''Busy'']"
proof -
  have p: "storage active0 STORAGE_paired = Some (JBool True)"
    by (simp add: paired0_def storage_keys_distinct)
  show ?thesis
    using secureRequest_host_busy [of False] secureRequest_host_busy [of True] p
      not_identity_level_Busy
    by (simp add: E0_on_False C0_fields)
qed

lemma ensureSession_E0_invalid:
  assumes "\<And>tr ps. h tr ''nmBeginHandshake'' ps = Inr begin_response"
      and "storage w = storage (paired0 ''desktop-edpk'')"
      and "inMemoryKeypair w = Some client0"
      and "session w = None"
  shows "ensureSession (E0 h) C0 w =
           (Inl ''SignatureInvalid'',
            log_event CallVerify (begin_sent (E0 h) (log_event CallEnsureSession w)))"
proof -
  let ?E = "E0 h"
  let ?w0 = "log_event CallEnsureSession w"
  let ?host = "bytes_of ''0123456789abcdef0123456789abcdef''"
  have p: "isPaired ?w0"
    using isPaired_cong [of ?w0 "paired0 ''desktop-edpk''"] assms(2) by simp
  have k: "ensureClientKeypairUnlocked ?E C0 None ?w0 = (Inr client0, ?w0)"
    using assms(3) by (simp add: ensureClientKeypairUnlocked_def)
  have h1: "host ?E (trace ?w0) ''nmBeginHandshake'' (begin_params ?E ?w0) = Inr begin_response"
    using assms(1) by simp
  have h2: "getPinnedIdentity ?w0
              = Some \<lparr>fingerprint = JStr ''ff00aa11'', ed25519PublicKey = JStr ''desktop-edpk'',
                       x25519PublicKey = JStr ''xpk''\<rparr>"
    using getPinnedIdentity_cong [of ?w0 "paired0 ''desktop-edpk''"] assms(2)
    by (simp add: getPinnedIdentity_paired0)
  have h3: "get_prop begin_response ''hostEphemeralPubB64''
              = Inr (JStr ''0123456789abcdef0123456789abcdef'')"
    by simp
  have h4: "base64Decode ?E (JStr ''0123456789abcdef0123456789abcdef'') = Inr ?host"
    by simp
  have h5: "inMemoryKeypair ?w0 = Some client0"
    using assms(3) by simp
  have h6: "base64Decode ?E (ed25519PublicKey \<lparr>fingerprint = JStr ''ff00aa11'',
              ed25519PublicKey = JStr ''desktop-edpk'', x25519PublicKey = JStr ''xpk''\<rparr>)
              = Inr (bytes_of ''desktop-edpk'')"
    by simp
  have h7: "get_prop begin_response ''signatureB64'' = Inr (JStr ''sig'')"
    by simp
  have h8: "base64Decode ?E (JStr ''sig'') = Inr (bytes_of ''sig'')"
    by simp
  have h9: "\<not> verifyEd25519Signature ?E (?host @ own_ephemeral_public ?E ?w0 @ publicKey client0)
              (bytes_of ''sig'') (bytes_of ''desktop-edpk'')"
    by (simp add: verifyEd25519Signature_def E0_def bytes_of_def)
  have b: "beginHandshake ?E C0 ?w0 =
             (HsFail ''SignatureInvalid'', log_event CallVerify (begin_sent ?E ?w0))"
    using beginHandshake_try_verified [OF h1 h2 h3 h4 h5 h6 h7 h8, of C0] h9
    by (simp add: beginHandshake_def C0_fields)
  show ?thesis
    using assms(4) p
    by (simp add: ensureSession_def hasActiveSession_def performHandshake_def k b C0_fields)
qed

lemma identity_level_SignatureInvalid: "is_identity_level C0 ''SignatureInvalid''"
  by (simp add: is_identity_level_def C0_def)

theorem secureRequest_retry_once_witness:
  "fst (attempt (E0 host_flaky) C0 ''getVaults'' JNull active0) = Inl ''DecryptFailed'' \<and>
   fst (secureRequest (E0 host_flaky) C0 ''getVaults'' JNull active0) = Inr (JStr ''done'') \<and>
   (\<exists>evs. new_events (snd (attempt (E0 host_flaky) C0 ''getVaults'' JNull active0))
            (snd (secureRequest (E0 host_flaky) C0 ''getVaults'' JNull active0))
            = DropSession # CallEnsureSession # evs \<and>
          count_event DropSession evs = 0 \<and> count_event CallEnsureSession evs = 0 \<and>
          count_event CallAttempt evs = 1) \<and>
   isPaired stale0 = True \<and>
   fst (attempt (E0 host_busy) C0 ''getVaults'' JNull stale0) = Inl ''DecryptFailed'' \<and>
   fst (secureRequest (E0 host_busy) C0 ''getVaults'' JNull stale0) = Inl ''SignatureInvalid'' \<and>
   storage (snd (secureRequest (E0 host_busy) C0 ''getVaults'' JNull stale0)) STORAGE_paired
     = Some (JBool False) \<and>
   getPinnedIdentity (snd (secureRequest (E0 host_busy) C0 ''getVaults'' JNull stale0)) = None"
proof -
  let ?m = "''getVaults''"
  let ?Ef = "E0 host_flaky"
  let ?a = "attempt ?Ef C0 ?m JNull active0"
  let ?w2 = "log_event DropSession ((snd ?a)\<lparr>session := None\<rparr>)"
  have a: "?a = (Inl ''DecryptFailed'', snd ?a)"
    using attempt_host_flaky [of active0 session0 ?m JNull]
    by (simp add: prod_eq_iff)
  note w2 = after_first_attempt [OF active0_fields(1) a]
  have "\<exists>wF. storage wF = storage ?w2 \<and> (\<exists>s. session wF = Some s) \<and>
           (\<exists>evs. trace wF = trace ?w2 @ evs \<and> notifications evs = []) \<and>
           ensureSession ?Ef C0 ?w2 =
             (if truthy (opt_prop (JObj [(''ok'', JBool True)]) ''ok'')
              then (Inr (), wF) else finish_failed ?Ef C0 (JObj [(''ok'', JBool True)]) wF)"
    using w2(1-3)
    by (intro ensureSession_E0 [where sk = False, unfolded E0_on_False])
      (simp_all add: host_flaky_answers)
  then obtain wF s3 evs where en: "ensureSession ?Ef C0 ?w2 = (Inr (), wF)"
    and wF: "session wF = Some s3" "trace wF = trace ?w2 @ evs"
    by auto
  have "sent_seqs (trace wF) \<noteq> []"
    using w2(4) by (auto simp add: wF(2))
  then have a2: "fst (attempt ?Ef C0 ?m JNull wF) = Inr (JStr ''done'')"
    using attempt_host_flaky [OF wF(1), of ?m JNull] by simp
  note A = secureRequest_retry_once
             [OF active0_fields(1) a retryable_DecryptFailed en surjective_pairing]
  let ?Eb = "E0 host_busy"
  let ?b = "attempt ?Eb C0 ?m JNull stale0"
  let ?v2 = "log_event DropSession ((snd ?b)\<lparr>session := None\<rparr>)"
  have b: "?b = (Inl ''DecryptFailed'', snd ?b)"
    using attempt_host_busy [of stale0 session0 False ?m JNull, unfolded E0_on_False]
    by (simp add: prod_eq_iff)
  note v2 = after_first_attempt [OF stale0_fields(1) b]
  have en': "ensureSession ?Eb C0 ?v2 =
               (Inl ''SignatureInvalid'',
                log_event CallVerify (begin_sent ?Eb (log_event CallEnsureSession ?v2)))"
    using v2(1-3) by (intro ensureSession_E0_invalid) (simp_all add: host_busy_answers)
  note B = secureRequest_retry_once
             [OF stale0_fields(1) b retryable_DecryptFailed en' surjective_pairing]
  have p: "isPaired stale0"
    using isPaired_cong [of stale0 "paired0 ''desktop-edpk''"] by simp
  have A1: "\<exists>evs. new_events (snd ?a) (snd (secureRequest ?Ef C0 ?m JNull active0))
                 = DropSession # CallEnsureSession # evs \<and>
               count_event DropSession evs = 0 \<and> count_event CallEnsureSession evs = 0 \<and>
               count_event CallAttempt evs = 1"
    using A [THEN conjunct1] by simp
  have A2: "fst (secureRequest ?Ef C0 ?m JNull active0) = Inr (JStr ''done'')"
    using A [THEN conjunct2, THEN conjunct1] a2 by simp
  have B1: "fst (secureRequest ?Eb C0 ?m JNull stale0) = Inl ''SignatureInvalid''"
    using B [THEN conjunct2, THEN conjunct2, THEN conjunct1] by simp
  have B2: "storage (snd (secureRequest ?Eb C0 ?m JNull stale0)) STORAGE_paired
              = Some (JBool False) \<and>
            getPinnedIdentity (snd (secureRequest ?Eb C0 ?m JNull stale0)) = None"
  proof -
    have idl: "fst (secureRequest ?Eb C0 ?m JNull stale0) = Inl ''SignatureInvalid'' \<and>
               is_identity_level C0
                 (if ''SignatureInvalid'' \<noteq> [] then ''SignatureInvalid'' else ''DecryptFailed'')"
      using B1 identity_level_SignatureInvalid by simp
    note B5 = B [THEN conjunct2, THEN conjunct2, THEN conjunct2, THEN conjunct1,
                 rule_format, OF idl]
    show ?thesis
      using B5 [THEN conjunct2, THEN conjunct1]
        B5 [THEN conjunct2, THEN conjunct2, THEN conjunct1]
      by simp
  qed
  have a': "fst ?a = Inl ''DecryptFailed''" and b': "fst ?b = Inl ''DecryptFailed''"
    using a b by (simp_all add: prod_eq_iff)
  show ?thesis
    using A1 A2 B1 B2 a' b' p by blast
qed

end
